theory Spec2Isabelle
  imports Main "HOL-Library.Multiset" "HOL-Library.AList"
begin

section \<open>JavaScript values and library functions used by the search code\<close>

text \<open>
  Strings are lists of characters. \<open>String.prototype.slice(from, to)\<close> on integer
  arguments: a negative index counts from the end, both indices are clipped to the string,
  and an empty string results when the clipped \<open>from\<close> is not below the clipped \<open>to\<close>.
\<close>

definition clipIndex :: "string \<Rightarrow> int \<Rightarrow> int" where
  "clipIndex s i = (if i < 0 then max (int (length s) + i) 0 else min i (int (length s)))"

definition slice :: "string \<Rightarrow> int \<Rightarrow> int \<Rightarrow> string" where
  "slice s from to =
     take (nat (clipIndex s to - clipIndex s from)) (drop (nat (clipIndex s from)) s)"

text \<open>\<open>slice(from)\<close> with the second argument left out runs to the end of the string.\<close>

definition sliceFrom :: "string \<Rightarrow> int \<Rightarrow> string" where
  "sliceFrom s from = slice s from (int (length s))"

text \<open>
  \<open>Array.prototype.sort(compare)\<close>: the array is reordered so that \<open>compare a b \<le> 0\<close>
  for \<open>a\<close> before \<open>b\<close>. The order of elements that compare equal is left to the
  engine; the model is a stable insertion sort.
\<close>

fun insertBy :: "('a \<Rightarrow> 'a \<Rightarrow> int) \<Rightarrow> 'a \<Rightarrow> 'a list \<Rightarrow> 'a list" where
  "insertBy compare x [] = [x]"
| "insertBy compare x (y # ys) =
     (if compare x y \<le> 0 then x # y # ys else y # insertBy compare x ys)"

fun array_sort :: "('a \<Rightarrow> 'a \<Rightarrow> int) \<Rightarrow> 'a list \<Rightarrow> 'a list" where
  "array_sort compare [] = []"
| "array_sort compare (x # xs) = insertBy compare x (array_sort compare xs)"

text \<open>
  A comparison function that orders its arguments: any two are comparable and the order
  is transitive. The sort yields a sorted array for such a function.
\<close>

definition totalOrder :: "('a \<Rightarrow> 'a \<Rightarrow> int) \<Rightarrow> bool" where
  "totalOrder c = ((\<forall>a b. c a b \<le> 0 \<or> c b a \<le> 0)
                   \<and> (\<forall>a b d. c a b \<le> 0 \<and> c b d \<le> 0 \<longrightarrow> c a d \<le> 0))"

text \<open>A promise that has settled: resolved, or rejected with an error value.\<close>

datatype 'e promise = Resolved | Rejected 'e

text \<open>
  A regular-expression match array (\<open>match.result\<close>): element 0 is the whole match,
  element \<open>n\<close> the text of capture group \<open>n\<close>, \<open>undefined\<close> (\<open>None\<close>) for a group
  that did not take part in the match. Reading past the end gives \<open>undefined\<close> too.
\<close>

type_synonym regexp_result = "string option list"

definition arrayGet :: "'a option list \<Rightarrow> nat \<Rightarrow> 'a option" where
  "arrayGet a i = (if i < length a then a ! i else None)"

text \<open>\<open>v || ""\<close> for a string or \<open>undefined\<close>.\<close>

fun orEmpty :: "string option \<Rightarrow> string" where
  "orEmpty None = []"
| "orEmpty (Some s) = s"

text \<open>\<open>match[n] || ""\<close>: the text of group \<open>n\<close>, empty when the group is undefined.\<close>

definition groupText :: "regexp_result \<Rightarrow> nat \<Rightarrow> string" where
  "groupText match n = orEmpty (arrayGet match n)"

definition isDigit :: "char \<Rightarrow> bool" where
  "isDigit c = (c \<in> set ''0123456789'')"

definition digitValue :: "char \<Rightarrow> nat" where
  "digitValue c = of_char c - 48"

text \<open>
  \<open>parseInt(s, 10)\<close> on a string without sign or leading blanks: the value of the longest
  prefix of decimal digits, \<open>NaN\<close> (\<open>None\<close>) when there is none.
\<close>

definition parseInt :: "string \<Rightarrow> nat option" where
  "parseInt s =
     (let ds = takeWhile isDigit s
      in if ds = [] then None else Some (foldl (\<lambda>n c. 10 * n + digitValue c) 0 ds))"

section \<open>\<open>parseDollars\<close>: expanding the \<open>$\<close>-expressions of a replacement text\<close>

text \<open>
  The group \<open>(\d{1,2}|&)\<close> at the head of a string: two digits when there are two, else
  one digit, else an ampersand. The result is the group's text and what follows it.
\<close>

fun matchIndex :: "string \<Rightarrow> (string \<times> string) option" where
  "matchIndex (a # b # r) =
     (if isDigit a \<and> isDigit b then Some ([a, b], r)
      else if isDigit a \<or> a = CHR ''&'' then Some ([a], b # r)
      else None)"
| "matchIndex [a] = (if isDigit a \<or> a = CHR ''&'' then Some ([a], []) else None)"
| "matchIndex [] = None"

text \<open>
  The expression \<open>(\$+)(\d{1,2}|&)\<close> matched at the head of a string. \<open>\$+\<close> is greedy
  and takes the whole run of dollar signs; giving one back leaves a dollar sign where the
  index group must start, so backtracking finds no other match. The result is the text of
  the two groups and the rest of the string after the match.
\<close>

definition matchDollars :: "string \<Rightarrow> (string \<times> string \<times> string) option" where
  "matchDollars s =
     (let dollars = takeWhile (\<lambda>c. c = CHR ''$'') s
      in if dollars = [] then None
         else case matchIndex (dropWhile (\<lambda>c. c = CHR ''$'') s) of
                None \<Rightarrow> None
              | Some (index, r) \<Rightarrow> Some (dollars, index, r))"

lemma matchIndex_shorter: "matchIndex s = Some (index, r) \<Longrightarrow> length r < length s"
  by (induction s rule: matchIndex.induct) (auto split: if_splits)

lemma matchDollars_shorter:
  assumes "matchDollars s = Some (dollars, index, r)"
  shows "length r < length s"
proof -
  from assms have "matchIndex (dropWhile (\<lambda>c. c = CHR ''$'') s) = Some (index, r)"
    by (auto simp: matchDollars_def Let_def split: if_splits option.splits)
  then have "length r < length (dropWhile (\<lambda>c. c = CHR ''$'') s)"
    by (rule matchIndex_shorter)
  also have "\<dots> \<le> length s"
    by (rule length_dropWhile_le)
  finally show ?thesis .
qed

text \<open>
  \<open>replaceWith.replace(/(\$+)(\d{1,2}|&)/g, f)\<close>: the string is scanned from the left;
  each match is replaced by what the callback \<open>f whole dollars index\<close> returns and the
  scan goes on after the match; a character where no match starts is copied.
\<close>

function replaceDollarExprs ::
  "(string \<Rightarrow> string \<Rightarrow> string \<Rightarrow> string) \<Rightarrow> string \<Rightarrow> string" where
  "replaceDollarExprs f s =
     (case matchDollars s of
        Some (dollars, index, r) \<Rightarrow> f (dollars @ index) dollars index @ replaceDollarExprs f r
      | None \<Rightarrow> (case s of [] \<Rightarrow> [] | c # cs \<Rightarrow> c # replaceDollarExprs f cs))"
  by pat_completeness auto
termination
  by (relation "measure (\<lambda>(f, s). length s)") (auto dest: matchDollars_shorter)

declare replaceDollarExprs.simps [simp del]

text \<open>
  The callback of \<open>parseDollars\<close> (lines 50 to 60). \<open>parseInt\<close> of the ampersand is
  \<open>NaN\<close>, which the first branch never reads; \<open>match[NaN]\<close> would be \<open>undefined\<close>.
\<close>

definition dollarReplacer :: "regexp_result \<Rightarrow> string \<Rightarrow> string \<Rightarrow> string \<Rightarrow> string" where
  "dollarReplacer match whole dollars index =
     (let parsedIndex = parseInt index
      in if length dollars mod 2 = 1 then
           (if index = ''&'' then drop 1 dollars @ groupText match 0
            else case parsedIndex of
                   None \<Rightarrow> drop 1 dollars
                 | Some n \<Rightarrow>
                     if n \<noteq> 0 then drop 1 dollars @ groupText match n else whole)
         else whole)"

text \<open>\<open>replaceWith.replace(/\$\$/g, "$")\<close>: pairs of dollar signs, found from the left.\<close>

fun unescapeDollars :: "string \<Rightarrow> string" where
  "unescapeDollars (a # b # r) =
     (if a = CHR ''$'' \<and> b = CHR ''$'' then CHR ''$'' # unescapeDollars r
      else a # unescapeDollars (b # r))"
| "unescapeDollars [a] = [a]"
| "unescapeDollars [] = []"

definition parseDollars :: "string \<Rightarrow> regexp_result \<Rightarrow> string" where
  "parseDollars replaceWith match =
     unescapeDollars (replaceDollarExprs (dollarReplacer match) replaceWith)"

section \<open>Matches, per-file results and the collaborators of the replacement code\<close>

text \<open>
  Modelled from the spec: a CodeMirror position \<open>{line, ch}\<close> and \<open>CodeMirror.cmpPos\<close>,
  which orders positions by line, then by column (section 3: ordered line/column
  positions). The result is negative, zero or positive.
\<close>

record pos =
  line :: int
  ch :: int

definition cmpPos :: "pos \<Rightarrow> pos \<Rightarrow> int" where
  "cmpPos a b = (if line a - line b \<noteq> 0 then line a - line b else ch a - ch b)"

text \<open>One match of the query in a file, with the fields the replacement code reads.\<close>

record search_match =
  start :: pos
  end' :: pos
  startOffset :: int
  endOffset :: int
  isChecked :: bool
  result :: regexp_result

text \<open>
  The entry of one file in the results (\<open>matchInfo\<close>), as \<open>addResultMatches\<close> builds
  it; \<open>timestamp\<close> is \<open>timestamp.getTime()\<close>.
\<close>

record file_result =
  matches :: "search_match list"
  collapsed :: bool
  timestamp :: int

datatype line_endings = LINE_ENDINGS_CRLF | LINE_ENDINGS_LF

datatype error = ERROR_FILE_CHANGED | FileSystemError string

text \<open>
  Modelled from the spec: the document (buffer) of an open file, section 6:
  \<open>BufferHandle.replaceRange(text, start, end)\<close> and \<open>BufferHandle.scopedBatchEdit(fn)\<close>,
  an atomic edit transaction. The document is represented by the edits it was asked to
  apply: \<open>history\<close> holds the finished transactions, oldest first, and \<open>batch\<close> the edits
  of a batch operation that is still running. An edit outside a batch operation is a
  transaction of its own; a batch operation inside another one joins it.
\<close>

datatype edit = ReplaceRange string pos pos

record document =
  history :: "edit list list"
  batch :: "edit list option"

text \<open>
  Modelled from the spec: \<open>BufferHandle.replaceRange(text, start, end)\<close>, one edit of the
  range from \<open>start\<close> to \<open>end\<close>.
\<close>

definition replaceRange :: "string \<Rightarrow> pos \<Rightarrow> pos \<Rightarrow> document \<Rightarrow> document" where
  "replaceRange text from to doc =
     (case batch doc of
        Some es \<Rightarrow> doc\<lparr>batch := Some (es @ [ReplaceRange text from to])\<rparr>
      | None \<Rightarrow> doc\<lparr>history := history doc @ [[ReplaceRange text from to]]\<rparr>)"

text \<open>
  Modelled from the spec: \<open>BufferHandle.scopedBatchEdit(fn)\<close> (\<open>doc.batchOperation\<close>), which
  runs \<open>fn\<close> and makes one transaction of the edits it issues.
\<close>

definition batchOperation :: "(document \<Rightarrow> document) \<Rightarrow> document \<Rightarrow> document" where
  "batchOperation f doc =
     (case batch doc of
        Some es \<Rightarrow> f doc
      | None \<Rightarrow>
          (let doc' = f (doc\<lparr>batch := Some []\<rparr>)
           in doc'\<lparr>history := history doc' @ [case batch doc' of Some es \<Rightarrow> es | None \<Rightarrow> []],
                   batch := None\<rparr>))"

text \<open>
  Modelled from the spec: the filesystem provider of section 6. \<open>fileText\<close> is the text
  of the file as it stands on disk, with the line endings it has there;
  \<open>fileLineEndings\<close> is the line-ending convention that the provider detects for the file
  (\<open>null\<close> when it detects none). A path with no file answers a read with an error. A
  write replaces the whole text, or fails on a file that cannot be written. \<open>fileWrites\<close>
  counts the writes the file has received. The modification time and the detected line
  endings after a write are not modelled: no operation here reads a file it has written.
\<close>

record disk_file =
  fileText :: string
  fileTimestamp :: int
  fileLineEndings :: "line_endings option"
  fileWritable :: bool
  fileWrites :: nat

text \<open>
  The state outside the results: the files on disk, the documents that are open, each
  under its full path, and the path of the current document.
\<close>

record world =
  disk :: "string \<rightharpoonup> disk_file"
  openDocuments :: "string \<rightharpoonup> document"
  currentDocument :: "string option"

text \<open>
  Modelled from the spec: the normalisation of the read path (section 4.4, step 6: the
  read path has already normalised line endings to a single canonical form), which turns
  every carriage return and line feed pair into a line feed.
\<close>

fun normalizeLineEndings :: "string \<Rightarrow> string" where
  "normalizeLineEndings (a # b # r) =
     (if a = CHR 0x0D \<and> b = CHR 0x0A then CHR 0x0A # normalizeLineEndings r
      else a # normalizeLineEndings (b # r))"
| "normalizeLineEndings [a] = [a]"
| "normalizeLineEndings [] = []"

text \<open>
  Modelled from the spec: \<open>readFileWithMeta(path)\<close> of the filesystem provider
  (\<open>DocumentManager.getDocumentText\<close> for a file that is not open): the text of the file
  with its line endings normalised, the modification time and the detected line endings
  of the file, or an error.
\<close>

definition getDocumentText :: "world \<Rightarrow> string \<Rightarrow> error + (string \<times> int \<times> line_endings option)" where
  "getDocumentText w fullPath =
     (case disk w fullPath of
        None \<Rightarrow> Inl (FileSystemError ''NotFound'')
      | Some file \<Rightarrow>
          Inr (normalizeLineEndings (fileText file), fileTimestamp file, fileLineEndings file))"

text \<open>
  Modelled from the spec: \<open>writeFile(path, content)\<close> of the filesystem provider
  (\<open>file.write\<close>), which replaces the whole text of the file or fails with an error.
\<close>

definition writeFile :: "world \<Rightarrow> string \<Rightarrow> string \<Rightarrow> error + world" where
  "writeFile w fullPath newContents =
     (case disk w fullPath of
        None \<Rightarrow> Inl (FileSystemError ''NotFound'')
      | Some file \<Rightarrow>
          if fileWritable file
          then Inr (w\<lparr>disk := (disk w)(fullPath \<mapsto>
                       file\<lparr>fileText := newContents, fileWrites := Suc (fileWrites file)\<rparr>)\<rparr>)
          else Inl (FileSystemError ''NotWritable''))"

text \<open>
  Modelled from the spec: \<open>openForEditing(path)\<close> of the document provider
  (\<open>DocumentManager.getDocumentForPath\<close>), which opens a document for a file on disk and
  fails with an error when there is no such file.
\<close>

definition getDocumentForPath :: "world \<Rightarrow> string \<Rightarrow> error + (world \<times> document)" where
  "getDocumentForPath w fullPath =
     (case openDocuments w fullPath of
        Some doc \<Rightarrow> Inr (w, doc)
      | None \<Rightarrow>
          (case disk w fullPath of
             None \<Rightarrow> Inl (FileSystemError ''NotFound'')
           | Some file \<Rightarrow>
               (let doc = \<lparr>history = [], batch = None\<rparr>
                in Inr (w\<lparr>openDocuments := (openDocuments w)(fullPath \<mapsto> doc)\<rparr>, doc))))"

section \<open>Replacing in one file\<close>

text \<open>The text that replaces one match (lines 83 and 115).\<close>

definition replacementFor :: "string \<Rightarrow> bool \<Rightarrow> search_match \<Rightarrow> string" where
  "replacementFor replaceText isRegexp match =
     (if isRegexp then parseDollars replaceText (result match) else replaceText)"

text \<open>
  \<open>_doReplaceInDocument\<close>. The sort works on the array of \<open>matchInfo\<close> itself, so the
  reordered entry is returned with the edited document.
\<close>

definition doReplaceInDocument ::
  "document \<Rightarrow> file_result \<Rightarrow> string \<Rightarrow> bool \<Rightarrow> document \<times> file_result \<times> error promise" where
  "doReplaceInDocument doc matchInfo replaceText isRegexp =
     (let sorted = array_sort (\<lambda>match1 match2. cmpPos (start match2) (start match1))
                     (matches matchInfo);
          matchInfo' = matchInfo\<lparr>matches := sorted\<rparr>;
          doc' = batchOperation
                   (\<lambda>d. foldl (\<lambda>d match.
                                  if isChecked match
                                  then replaceRange (replacementFor replaceText isRegexp match)
                                         (start match) (end' match) d
                                  else d)
                          d (matches matchInfo'))
                   doc
      in (doc', matchInfo', Resolved))"

text \<open>
  The loop of \<open>_doReplaceOnDisk\<close> over the matches (lines 110 to 118): the state is the
  array \<open>result\<close> of segments (here \<open>result'\<close>) and \<open>lastIndex\<close>.
\<close>

definition replaceStep ::
  "string \<Rightarrow> string \<Rightarrow> bool \<Rightarrow> string list \<times> int \<Rightarrow> search_match \<Rightarrow> string list \<times> int" where
  "replaceStep contents replaceText isRegexp st match =
     (case st of (result', lastIndex) \<Rightarrow>
        if isChecked match
        then (result' @ [slice contents lastIndex (startOffset match),
                         replacementFor replaceText isRegexp match],
              endOffset match)
        else (result', lastIndex))"

text \<open>\<open>newContents.replace(/\n/g, "\r\n")\<close>.\<close>

definition toCRLF :: "string \<Rightarrow> string" where
  "toCRLF s = concat (map (\<lambda>c. if c = CHR 0x0A then [CHR 0x0D, CHR 0x0A] else [c]) s)"

text \<open>Lines 110 to 125: the new contents of the file, from the contents that were read.\<close>

definition newContentsOf ::
  "string \<Rightarrow> line_endings option \<Rightarrow> search_match list \<Rightarrow> string \<Rightarrow> bool \<Rightarrow> string" where
  "newContentsOf contents lineEndings ms replaceText isRegexp =
     (case foldl (replaceStep contents replaceText isRegexp) ([], 0) ms of
        (result', lastIndex) \<Rightarrow>
          (let newContents = concat (result' @ [sliceFrom contents lastIndex])
           in if lineEndings = Some LINE_ENDINGS_CRLF then toCRLF newContents
              else newContents))"

text \<open>\<open>_doReplaceOnDisk\<close>: the new state of the world and the promise it returns.\<close>

definition doReplaceOnDisk ::
  "world \<Rightarrow> string \<Rightarrow> file_result \<Rightarrow> string \<Rightarrow> bool \<Rightarrow> world \<times> error promise" where
  "doReplaceOnDisk w fullPath matchInfo replaceText isRegexp =
     (case getDocumentText w fullPath of
        Inl err \<Rightarrow> (w, Rejected err)
      | Inr (contents, timestamp', lineEndings) \<Rightarrow>
          if timestamp' \<noteq> timestamp matchInfo then (w, Rejected ERROR_FILE_CHANGED)
          else (case writeFile w fullPath
                       (newContentsOf contents lineEndings (matches matchInfo)
                          replaceText isRegexp) of
                  Inl err \<Rightarrow> (w, Rejected err)
                | Inr w' \<Rightarrow> (w', Resolved)))"

text \<open>
  Step 4 of section 4.4 of the spec, in its words, on the matches in the order given, from
  a cursor position: for each checked match the text before it since the cursor, then the
  replacement text, and the cursor moves to \<open>endOffset\<close>; an unchecked match is skipped;
  after the last match the remaining tail of the text.
\<close>

fun specWalk :: "string \<Rightarrow> string \<Rightarrow> bool \<Rightarrow> int \<Rightarrow> search_match list \<Rightarrow> string" where
  "specWalk contents replaceText isRegexp cursor [] = sliceFrom contents cursor"
| "specWalk contents replaceText isRegexp cursor (m # ms) =
     (if isChecked m
      then slice contents cursor (startOffset m) @ replacementFor replaceText isRegexp m
           @ specWalk contents replaceText isRegexp (endOffset m) ms
      else specWalk contents replaceText isRegexp cursor ms)"

text \<open>
  Steps 5 and 6 of section 4.4: the text as it is written for a detected line-ending
  convention.
\<close>

definition withLineEndings :: "line_endings option \<Rightarrow> string \<Rightarrow> string" where
  "withLineEndings lineEndings s = (if lineEndings = Some LINE_ENDINGS_CRLF then toCRLF s else s)"

text \<open>
  Uniform line endings of a text on disk: every line feed is the second half of a carriage
  return and line feed pair, and no such pair occurs.
\<close>

fun allCRLF :: "string \<Rightarrow> bool" where
  "allCRLF (a # b # r) =
     (if a = CHR 0x0D \<and> b = CHR 0x0A then allCRLF r else a \<noteq> CHR 0x0A \<and> allCRLF (b # r))"
| "allCRLF [a] = (a \<noteq> CHR 0x0A)"
| "allCRLF [] = True"

fun noCRLF :: "string \<Rightarrow> bool" where
  "noCRLF (a # b # r) = (\<not> (a = CHR 0x0D \<and> b = CHR 0x0A) \<and> noCRLF (b # r))"
| "noCRLF [a] = True"
| "noCRLF [] = True"

text \<open>
  The options object. \<open>options || {}\<close> turns a missing one into an object whose flags
  are \<open>undefined\<close>, which is read as false.
\<close>

record options =
  forceFilesOpen :: bool
  isRegexp :: bool

definition orNoOptions :: "options option \<Rightarrow> options" where
  "orNoOptions opts =
     (case opts of None \<Rightarrow> \<lparr>forceFilesOpen = False, isRegexp = False\<rparr> | Some v \<Rightarrow> v)"

text \<open>
  \<open>_doReplaceInOneFile\<close>. A document that was edited is stored back under its path:
  the code edits the document object that the document manager holds.
\<close>

definition doReplaceInOneFile ::
  "world \<Rightarrow> string \<Rightarrow> file_result \<Rightarrow> string \<Rightarrow> options option
     \<Rightarrow> world \<times> file_result \<times> error promise" where
  "doReplaceInOneFile w fullPath matchInfo replaceText opts =
     (let doc = openDocuments w fullPath;
          options = orNoOptions opts
      in if forceFilesOpen options \<and> doc = None then
           (case getDocumentForPath w fullPath of
              Inl err \<Rightarrow> (w, matchInfo, Rejected err)
            | Inr (w', newDoc) \<Rightarrow>
                (case doReplaceInDocument newDoc matchInfo replaceText (isRegexp options) of
                   (newDoc', matchInfo', p) \<Rightarrow>
                     (w'\<lparr>openDocuments := (openDocuments w')(fullPath \<mapsto> newDoc')\<rparr>,
                      matchInfo', p)))
         else (case doc of
                 Some d \<Rightarrow>
                   (case doReplaceInDocument d matchInfo replaceText (isRegexp options) of
                      (d', matchInfo', p) \<Rightarrow>
                        (w\<lparr>openDocuments := (openDocuments w)(fullPath \<mapsto> d')\<rparr>,
                         matchInfo', p))
               | None \<Rightarrow>
                   (case doReplaceOnDisk w fullPath matchInfo replaceText (isRegexp options) of
                      (w', p) \<Rightarrow> (w', matchInfo, p))))"

section \<open>Replacing in all files of the results\<close>

text \<open>
  The results object \<open>Object.<fullPath, matchInfo>\<close> is a list of entries with distinct
  keys, in the order of \<open>Object.keys\<close>: the keys that are written like an array index
  first, in ascending numeric order, then the other keys in the order in which they were
  added (\<open>setProperty\<close> below keeps that order). \<open>map_of\<close> reads the entry of a key.
\<close>

type_synonym results_object = "(string \<times> file_result) list"

definition hasCheckedMatches :: "file_result \<Rightarrow> bool" where
  "hasCheckedMatches r = list_ex isChecked (matches r)"

text \<open>
  Modelled from the spec: \<open>Async.doInParallel_aggregateErrors\<close>, section 4.6. One
  operation is begun for every item, whatever the others return; the call resolves when
  all of them resolved, and otherwise is rejected with the list of \<open>{item, error}\<close> of the
  operations that were rejected. Section 5: one thread of control, and an operation
  touches only the buffer or the file of its own item, so the operations are run one
  after the other, in the order of the items.
\<close>

fun processItems ::
  "('item \<Rightarrow> 's \<Rightarrow> 's \<times> 'e promise) \<Rightarrow> 'item list \<Rightarrow> 's \<Rightarrow> ('item \<times> 'e) list
     \<Rightarrow> 's \<times> ('item \<times> 'e) list" where
  "processItems beginProcessItem [] st errors = (st, errors)"
| "processItems beginProcessItem (item # items) st errors =
     (case beginProcessItem item st of
        (st', Resolved) \<Rightarrow> processItems beginProcessItem items st' errors
      | (st', Rejected e) \<Rightarrow> processItems beginProcessItem items st' (errors @ [(item, e)]))"

definition doInParallel_aggregateErrors ::
  "'item list \<Rightarrow> ('item \<Rightarrow> 's \<Rightarrow> 's \<times> 'e promise) \<Rightarrow> 's \<Rightarrow> 's \<times> ('item \<times> 'e) list promise" where
  "doInParallel_aggregateErrors items beginProcessItem st =
     (case processItems beginProcessItem items st [] of
        (st', errors) \<Rightarrow> (st', if errors = [] then Resolved else Rejected errors))"

text \<open>
  The callback of line 182 on the world and the results. A key of \<open>Object.keys(results)\<close>
  always has an entry, so the first branch is never taken.
\<close>

definition replaceInItem ::
  "string \<Rightarrow> options option \<Rightarrow> string \<Rightarrow> world \<times> results_object
     \<Rightarrow> (world \<times> results_object) \<times> error promise" where
  "replaceInItem replaceText opts fullPath st =
     (case st of (w, results) \<Rightarrow>
        (case map_of results fullPath of
           None \<Rightarrow> ((w, results), Resolved)
         | Some matchInfo \<Rightarrow>
             (case doReplaceInOneFile w fullPath matchInfo replaceText opts of
                (w', matchInfo', p) \<Rightarrow> ((w', AList.update fullPath matchInfo' results), p))))"

text \<open>
  The body of the \<open>done\<close> handler under \<open>forceFilesOpen\<close> (lines 188 to 207), with
  \<open>FileUtils.comparePaths\<close> as a parameter. The current document is known by its path.
  An empty path is falsy in \<open>if (firstPath)\<close>.
\<close>

definition openFirstModified ::
  "(string \<Rightarrow> string \<Rightarrow> int) \<Rightarrow> world \<Rightarrow> results_object \<Rightarrow> world" where
  "openFirstModified comparePaths w results =
     (if (case currentDocument w of
            None \<Rightarrow> True
          | Some path \<Rightarrow>
              (case map_of results path of
                 None \<Rightarrow> True
               | Some r \<Rightarrow> \<not> hasCheckedMatches r))
      then
        (let sortedPaths = array_sort comparePaths (map fst results);
             firstPath = find (\<lambda>path. case map_of results path of
                                         None \<Rightarrow> False
                                       | Some r \<Rightarrow> hasCheckedMatches r) sortedPaths
         in case firstPath of
              None \<Rightarrow> w
            | Some path \<Rightarrow>
                if path = [] then w
                else (case openDocuments w path of
                        None \<Rightarrow> w
                      | Some newDoc \<Rightarrow> w\<lparr>currentDocument := Some path\<rparr>))
      else w)"

text \<open>
  \<open>performReplacements\<close>: the new world, the results (whose entries the replacement in
  a document reorders) and the promise.
\<close>

definition performReplacements ::
  "(string \<Rightarrow> string \<Rightarrow> int) \<Rightarrow> world \<Rightarrow> results_object \<Rightarrow> string \<Rightarrow> options option
     \<Rightarrow> world \<times> results_object \<times> (string \<times> error) list promise" where
  "performReplacements comparePaths w results replaceText opts =
     (case doInParallel_aggregateErrors (map fst results) (replaceInItem replaceText opts)
             (w, results) of
        ((w', results'), p) \<Rightarrow>
          (if p = Resolved \<and> (case opts of None \<Rightarrow> False | Some v \<Rightarrow> forceFilesOpen v)
           then openFirstModified comparePaths w' results'
           else w',
           results', p))"

text \<open>
  For the statements about a batch: what the world holds for one path (its file on disk
  and its open document), the entry a rejected operation adds to the list of errors, and
  the errors of the files whose own operation, run on the world before the batch, is
  rejected.
\<close>

definition fileState :: "world \<Rightarrow> string \<Rightarrow> disk_file option \<times> document option" where
  "fileState w fullPath = (disk w fullPath, openDocuments w fullPath)"

definition itemFailure :: "'item \<Rightarrow> 'e promise \<Rightarrow> ('item \<times> 'e) list" where
  "itemFailure item p = (case p of Resolved \<Rightarrow> [] | Rejected e \<Rightarrow> [(item, e)])"

definition failedFiles ::
  "world \<Rightarrow> results_object \<Rightarrow> string \<Rightarrow> options option \<Rightarrow> (string \<times> error) list" where
  "failedFiles w rs replaceText opts =
     concat (map (\<lambda>(fullPath, matchInfo).
                    itemFailure fullPath
                      (snd (snd (doReplaceInOneFile w fullPath matchInfo replaceText opts))))
               rs)"

section \<open>\<open>SearchModel\<close>\<close>

text \<open>
  The fields of a \<open>SearchModel\<close>. \<open>selectedEntry\<close> is the property \<open>_selectedEntry\<close>
  that \<open>getSortedFiles\<close> reads; the model's own code never assigns it, so it is
  \<open>undefined\<close> (\<open>None\<close>) unless it was set from outside. \<open>triggered\<close> lists the
  events that were dispatched, oldest first. The field \<open>isRegexp\<close> of \<open>queryInfo\<close> is
  \<open>queryIsRegexp\<close> here.
\<close>

record query_info =
  query :: string
  caseSensitive :: bool
  queryIsRegexp :: bool

record search_model =
  results :: results_object
  queryInfo :: "query_info option"
  isReplace :: bool
  replaceText :: "string option"
  scope :: "string option"
  foundMaximum :: bool
  selectedEntry :: "string option"
  triggered :: "string list"

text \<open>\<open>clear\<close> resets every field that the model declares and dispatches \<open>clear\<close>.\<close>

definition clear :: "search_model \<Rightarrow> search_model" where
  "clear m = m\<lparr>results := [], queryInfo := None, isReplace := False, replaceText := None,
               scope := None, foundMaximum := False,
               triggered := triggered m @ [''clear'']\<rparr>"

text \<open>
  A key is written like an array index when it is the decimal numeral, without a leading
  zero, of an integer below \<open>2^32 - 1\<close>.
\<close>

definition indexValue :: "string \<Rightarrow> nat" where
  "indexValue s = foldl (\<lambda>n c. 10 * n + digitValue c) 0 s"

definition isArrayIndex :: "string \<Rightarrow> bool" where
  "isArrayIndex s =
     (s \<noteq> [] \<and> list_all isDigit s \<and> (s = ''0'' \<or> hd s \<noteq> CHR ''0'')
      \<and> indexValue s < 2 ^ 32 - 1)"

text \<open>
  \<open>obj[key] = value\<close> for a key that the object does not have: an array index goes
  before the first key that is no array index or is a greater one, another key goes
  after all keys.
\<close>

fun insertKey :: "string \<Rightarrow> 'v \<Rightarrow> (string \<times> 'v) list \<Rightarrow> (string \<times> 'v) list" where
  "insertKey key v [] = [(key, v)]"
| "insertKey key v ((key', v') # rest) =
     (if isArrayIndex key \<and> (\<not> isArrayIndex key' \<or> indexValue key < indexValue key')
      then (key, v) # (key', v') # rest
      else (key', v') # insertKey key v rest)"

text \<open>\<open>obj[key] = value\<close>: a key that is there keeps its place.\<close>

definition setProperty :: "string \<Rightarrow> 'v \<Rightarrow> (string \<times> 'v) list \<Rightarrow> (string \<times> 'v) list" where
  "setProperty key v obj =
     (case map_of obj key of
        Some old \<Rightarrow> AList.update key v obj
      | None \<Rightarrow> insertKey key v obj)"

text \<open>
  \<open>addResultMatches\<close>: \<open>this.results[fullpath] = {...}\<close> replaces the entry of a key that
  is there and adds a new key otherwise.
\<close>

definition addResultMatches ::
  "search_model \<Rightarrow> string \<Rightarrow> search_match list \<Rightarrow> int \<Rightarrow> search_model" where
  "addResultMatches m fullpath ms ts =
     m\<lparr>results := setProperty fullpath
                      \<lparr>matches = ms, collapsed = False, timestamp = ts\<rparr> (results m)\<rparr>"

text \<open>
  The constructor: \<open>clear\<close> on a new object, whose fields have the values of the
  prototype.
\<close>

definition newSearchModel :: search_model where
  "newSearchModel =
     clear \<lparr>results = [], queryInfo = None, isReplace = False, replaceText = None,
            scope = None, foundMaximum = False, selectedEntry = None, triggered = []\<rparr>"

definition hasResults :: "search_model \<Rightarrow> bool" where
  "hasResults m = (length (map fst (results m)) > 0)"

definition countFilesMatches :: "search_model \<Rightarrow> nat \<times> nat" where
  "countFilesMatches m =
     foldl (\<lambda>(numFiles, numMatches) item. (numFiles + 1, numMatches + length (matches item)))
       (0, 0) (map snd (results m))"

text \<open>The comparison function of \<open>getSortedFiles\<close> (lines 135 to 142).\<close>

definition compareKeys ::
  "(string \<Rightarrow> string \<Rightarrow> int) \<Rightarrow> string option \<Rightarrow> string \<Rightarrow> string \<Rightarrow> int" where
  "compareKeys comparePaths selected key1 key2 =
     (if selected = Some key1 then - 1
      else if selected = Some key2 then 1
      else comparePaths key1 key2)"

text \<open>
  \<open>getSortedFiles\<close>, with \<open>FileUtils.comparePaths\<close> as a parameter: the model after the
  call and the array that is returned. The sort works on the fresh array of keys.
\<close>

definition getSortedFiles ::
  "(string \<Rightarrow> string \<Rightarrow> int) \<Rightarrow> search_model \<Rightarrow> search_model \<times> string list" where
  "getSortedFiles comparePaths m =
     (let searchFiles = map fst (results m)
      in (m, array_sort (compareKeys comparePaths (selectedEntry m)) searchFiles))"

definition fireChanged :: "search_model \<Rightarrow> bool \<Rightarrow> search_model" where
  "fireChanged m quickChange = m\<lparr>triggered := triggered m @ [''change'']\<rparr>"

section \<open>Example data\<close>

text \<open>A match on line 0 from column and offset \<open>a\<close> to \<open>b\<close>, with its check mark.\<close>

definition exMatch :: "int \<Rightarrow> int \<Rightarrow> bool \<Rightarrow> search_match" where
  "exMatch a b c =
     \<lparr>start = \<lparr>line = 0, ch = a\<rparr>, end' = \<lparr>line = 0, ch = b\<rparr>,
      startOffset = a, endOffset = b, isChecked = c, result = []\<rparr>"

definition exFile :: "string \<Rightarrow> int \<Rightarrow> line_endings option \<Rightarrow> disk_file" where
  "exFile s ts le =
     \<lparr>fileText = s, fileTimestamp = ts, fileLineEndings = le, fileWritable = True,
      fileWrites = 0\<rparr>"

definition exEntry :: "search_match list \<Rightarrow> int \<Rightarrow> file_result" where
  "exEntry ms ts = \<lparr>matches = ms, collapsed = False, timestamp = ts\<rparr>"

text \<open>A world with one file \<open>/a\<close> on disk and no open document.\<close>

definition exWorld :: "disk_file \<Rightarrow> world" where
  "exWorld file =
     \<lparr>disk = [''/a'' \<mapsto> file], openDocuments = Map.empty, currentDocument = None\<rparr>"

definition exDoc :: document where
  "exDoc = \<lparr>history = [], batch = None\<rparr>"

text \<open>A stand-in for \<open>FileUtils.comparePaths\<close>: shorter paths first.\<close>

definition exComparePaths :: "string \<Rightarrow> string \<Rightarrow> int" where
  "exComparePaths a b = int (length a) - int (length b)"

definition exModel :: "string option \<Rightarrow> search_model" where
  "exModel sel =
     \<lparr>results = [(''/bbb'', exEntry [] 1), (''/cc'', exEntry [] 2), (''/a'', exEntry [] 3)],
      queryInfo = None, isReplace = False, replaceText = None, scope = None,
      foundMaximum = False, selectedEntry = sel, triggered = []\<rparr>"

text \<open>
  A world with the files \<open>/a\<close>, modified at time 5, and \<open>/b\<close>, modified at time 6, and
  results for both that were captured at time 5: with a checked match each, and with no
  checked match.
\<close>

definition exWorld2 :: world where
  "exWorld2 =
     \<lparr>disk = [''/a'' \<mapsto> exFile ''abcdef'' 5 None, ''/b'' \<mapsto> exFile ''abcdef'' 6 None],
      openDocuments = Map.empty, currentDocument = None\<rparr>"

definition exResults :: results_object where
  "exResults = [(''/a'', exEntry [exMatch 0 1 True] 5), (''/b'', exEntry [exMatch 0 1 True] 5)]"

definition exUnchecked :: results_object where
  "exUnchecked = [(''/a'', exEntry [exMatch 0 1 False] 5), (''/b'', exEntry [] 5)]"

section \<open>Replacing on disk: the staleness check\<close>

text \<open>
  C1. When the file can be read and its modification time differs from the time stamp of
  the entry, \<open>_doReplaceOnDisk\<close> is rejected with \<open>ERROR_FILE_CHANGED\<close> and the world is
  the one it started from: no file was written.
\<close>

theorem doReplaceOnDisk_file_changed:
  assumes "disk w fullPath = Some file"
    and "fileTimestamp file \<noteq> timestamp matchInfo"
  shows "doReplaceOnDisk w fullPath matchInfo replaceWith re = (w, Rejected ERROR_FILE_CHANGED)"
  using assms by (simp add: doReplaceOnDisk_def getDocumentText_def)

theorem doReplaceOnDisk_file_changed_witness:
  "disk (exWorld (exFile ''abcdef'' 6 None)) ''/a'' = Some (exFile ''abcdef'' 6 None)
   \<and> fileTimestamp (exFile ''abcdef'' 6 None) \<noteq> timestamp (exEntry [exMatch 0 1 True] 5)
   \<and> doReplaceOnDisk (exWorld (exFile ''abcdef'' 6 None)) ''/a''
         (exEntry [exMatch 0 1 True] 5) ''X'' False
       = (exWorld (exFile ''abcdef'' 6 None), Rejected ERROR_FILE_CHANGED)"
proof -
  have a: "disk (exWorld (exFile ''abcdef'' 6 None)) ''/a'' = Some (exFile ''abcdef'' 6 None)"
    by (simp add: exWorld_def)
  have b: "fileTimestamp (exFile ''abcdef'' 6 None) \<noteq> timestamp (exEntry [exMatch 0 1 True] 5)"
    by (simp add: exFile_def exEntry_def)
  from doReplaceOnDisk_file_changed [OF a b] a b show ?thesis
    by blast
qed

section \<open>Sorting\<close>

lemma mset_insertBy: "mset (insertBy c x xs) = add_mset x (mset xs)"
  by (induction xs) auto

lemma mset_array_sort: "mset (array_sort c xs) = mset xs"
  by (induction xs) (auto simp: mset_insertBy)

lemma set_insertBy: "set (insertBy c x xs) = insert x (set xs)"
  by (induction xs) auto

lemma set_array_sort: "set (array_sort c xs) = set xs"
  by (induction xs) (auto simp: set_insertBy)

lemma sorted_insertBy:
  assumes "totalOrder c" and "sorted_wrt (\<lambda>a b. c a b \<le> 0) xs"
  shows "sorted_wrt (\<lambda>a b. c a b \<le> 0) (insertBy c x xs)"
  using assms(2)
proof (induction xs)
  case Nil
  then show ?case by simp
next
  case (Cons y ys)
  show ?case
  proof (cases "c x y \<le> 0")
    case True
    have "c x z \<le> 0" if "z \<in> set ys" for z
      using that True Cons.prems assms(1) unfolding totalOrder_def by (metis sorted_wrt.simps(2))
    with True Cons.prems show ?thesis by simp
  next
    case False
    then have "c y x \<le> 0"
      using assms(1) unfolding totalOrder_def by blast
    with False Cons show ?thesis
      by (auto simp: set_insertBy)
  qed
qed

lemma sorted_array_sort:
  "totalOrder c \<Longrightarrow> sorted_wrt (\<lambda>a b. c a b \<le> 0) (array_sort c xs)"
  by (induction xs) (auto intro: sorted_insertBy)

text \<open>The comparison function of \<open>_doReplaceInDocument\<close> orders the matches.\<close>

lemma descending_totalOrder:
  "totalOrder (\<lambda>match1 match2. cmpPos (start match2) (start match1))"
  unfolding totalOrder_def cmpPos_def
  by (auto split: if_splits)

lemma exMatch_sel:
  "start (exMatch a b c) = \<lparr>line = 0, ch = a\<rparr>"
  "end' (exMatch a b c) = \<lparr>line = 0, ch = b\<rparr>"
  "startOffset (exMatch a b c) = a"
  "endOffset (exMatch a b c) = b"
  "isChecked (exMatch a b c) = c"
  "result (exMatch a b c) = []"
  by (simp_all add: exMatch_def)

lemma exComparePaths_totalOrder: "totalOrder exComparePaths"
  by (auto simp: totalOrder_def exComparePaths_def)

section \<open>Replacing in a document\<close>


text \<open>
  C9. \<open>_doReplaceInDocument\<close> sorts the array of the entry it was given: the entry it
  leaves behind holds the same matches, reordered so that start positions descend, and
  is the entry that the results keep.
\<close>

theorem doReplaceInDocument_sorts_in_place:
  "fst (snd (doReplaceInDocument doc matchInfo replaceWith re))
     = matchInfo\<lparr>matches := array_sort (\<lambda>match1 match2. cmpPos (start match2) (start match1))
                                 (matches matchInfo)\<rparr>
   \<and> mset (matches (fst (snd (doReplaceInDocument doc matchInfo replaceWith re))))
       = mset (matches matchInfo)
   \<and> sorted_wrt (\<lambda>m1 m2. cmpPos (start m2) (start m1) \<le> 0)
        (matches (fst (snd (doReplaceInDocument doc matchInfo replaceWith re))))"
  using sorted_array_sort [OF descending_totalOrder]
  by (simp add: doReplaceInDocument_def Let_def mset_array_sort)

theorem doReplaceInDocument_sorts_in_place_witness:
  "matches (fst (snd (doReplaceInDocument exDoc
      (exEntry [exMatch 0 1 True, exMatch 3 4 True] 5) ''X'' False)))
   = [exMatch 3 4 True, exMatch 0 1 True]"
  using doReplaceInDocument_sorts_in_place
          [of exDoc "exEntry [exMatch 0 1 True, exMatch 3 4 True] 5" "''X''" False]
  by (simp add: exEntry_def exMatch_def cmpPos_def)



section \<open>The sorted file paths of the model\<close>

lemma insertBy_compareKeys_other:
  "selected \<noteq> Some x \<Longrightarrow> selected \<notin> Some ` set ys \<Longrightarrow>
     insertBy (compareKeys cmp selected) x ys = insertBy cmp x ys"
  by (induction ys) (auto simp: compareKeys_def)

lemma array_sort_compareKeys_other:
  "selected \<notin> Some ` set xs \<Longrightarrow> array_sort (compareKeys cmp selected) xs = array_sort cmp xs"
  by (induction xs) (auto simp: insertBy_compareKeys_other set_array_sort)

lemma insertBy_compareKeys_selected:
  "insertBy (compareKeys cmp (Some sel)) sel ys = sel # ys"
  by (cases ys) (auto simp: compareKeys_def)

lemma insertBy_compareKeys_after:
  "x \<noteq> sel \<Longrightarrow> sel \<notin> set ys \<Longrightarrow>
     insertBy (compareKeys cmp (Some sel)) x (sel # ys) = sel # insertBy cmp x ys"
  using insertBy_compareKeys_other [of "Some sel" x ys cmp]
  by (auto simp: compareKeys_def)

lemma array_sort_compareKeys_selected:
  "distinct xs \<Longrightarrow> sel \<in> set xs \<Longrightarrow>
     array_sort (compareKeys cmp (Some sel)) xs = sel # array_sort cmp (remove1 sel xs)"
proof (induction xs)
  case Nil
  then show ?case by simp
next
  case (Cons x xs)
  show ?case
  proof (cases "x = sel")
    case True
    with Cons.prems have "Some sel \<notin> Some ` set xs" by auto
    with True show ?thesis
      by (simp add: array_sort_compareKeys_other insertBy_compareKeys_selected)
  next
    case False
    with Cons.prems have "sel \<in> set xs" "distinct xs" by auto
    then have ih: "array_sort (compareKeys cmp (Some sel)) xs = sel # array_sort cmp (remove1 sel xs)"
      by (simp add: Cons.IH)
    have notin: "sel \<notin> set (array_sort cmp (remove1 sel xs))"
      using \<open>distinct xs\<close> by (simp add: set_array_sort)
    have "array_sort (compareKeys cmp (Some sel)) (x # xs)
          = insertBy (compareKeys cmp (Some sel)) x (sel # array_sort cmp (remove1 sel xs))"
      by (simp add: ih)
    also have "\<dots> = sel # insertBy cmp x (array_sort cmp (remove1 sel xs))"
      using False notin by (rule insertBy_compareKeys_after)
    also have "\<dots> = sel # array_sort cmp (remove1 sel (x # xs))"
      using False by simp
    finally show ?thesis .
  qed
qed

text \<open>The keys of the results stay distinct, as the keys of an object are.\<close>

lemma keys_insertKey: "set (map fst (insertKey key v obj)) = insert key (set (map fst obj))"
  by (induction key v obj rule: insertKey.induct) (simp_all add: insert_commute)

lemma distinct_insertKey:
  "distinct (map fst obj) \<Longrightarrow> key \<notin> set (map fst obj) \<Longrightarrow> distinct (map fst (insertKey key v obj))"
proof (induction obj)
  case Nil
  show ?case by simp
next
  case (Cons e obj)
  obtain k' v' where e: "e = (k', v')" by (cases e)
  from Cons.prems have d: "distinct (map fst obj)" and n: "key \<notin> set (map fst obj)"
    and ne: "key \<noteq> k'" and k': "k' \<notin> set (map fst obj)"
    by (auto simp: e)
  have ih: "distinct (map fst (insertKey key v obj))"
    using d n by (rule Cons.IH)
  have "k' \<notin> set (map fst (insertKey key v obj))"
    unfolding keys_insertKey using ne k' by simp
  with ih Cons.prems show ?case
    by (simp add: e)
qed

lemma setProperty_distinct:
  "distinct (map fst obj) \<Longrightarrow> distinct (map fst (setProperty key v obj))"
proof (cases "map_of obj key")
  case None
  assume d: "distinct (map fst obj)"
  from None have "key \<notin> set (map fst obj)"
    by (simp add: map_of_eq_None_iff)
  with d have "distinct (map fst (insertKey key v obj))"
    by (rule distinct_insertKey)
  with None show ?thesis
    by (simp add: setProperty_def)
next
  case (Some old)
  assume "distinct (map fst obj)"
  with Some show ?thesis
    by (simp add: setProperty_def distinct_update)
qed

text \<open>
  Keys that are no array index are listed in the order in which they were added, and an
  array index comes before them.
\<close>

lemma setProperty_keys_example:
  "map fst (setProperty ''10'' (3::nat) (setProperty ''/a'' 2 (setProperty ''/b'' 1
     (setProperty ''2'' 0 []))))
   = [''2'', ''10'', ''/b'', ''/a'']"
  by (simp add: setProperty_def isArrayIndex_def indexValue_def isDigit_def digitValue_def)

lemma addResultMatches_distinct:
  "distinct (map fst (results m)) \<Longrightarrow>
     distinct (map fst (results (addResultMatches m fullpath ms ts)))"
  by (simp add: addResultMatches_def setProperty_distinct)

lemma clear_distinct: "distinct (map fst (results (clear m)))"
  by (simp add: clear_def)

text \<open>
  C8. For a model with distinct keys and a comparison of paths that orders them,
  \<open>getSortedFiles\<close> leaves the model as it was, so that a second call returns the same
  array; the array holds the keys of the results; when the selected entry is one of the
  keys it comes first and the other keys follow as the sort by \<open>comparePaths\<close> orders
  them; otherwise all keys are sorted by \<open>comparePaths\<close>.
\<close>

theorem getSortedFiles_selected_first:
  assumes "distinct (map fst (results m))" and "totalOrder comparePaths"
  shows "fst (getSortedFiles comparePaths m) = m
         \<and> getSortedFiles comparePaths (fst (getSortedFiles comparePaths m))
             = getSortedFiles comparePaths m
         \<and> mset (snd (getSortedFiles comparePaths m)) = mset (map fst (results m))
         \<and> (case selectedEntry m of
               None \<Rightarrow> sorted_wrt (\<lambda>a b. comparePaths a b \<le> 0) (snd (getSortedFiles comparePaths m))
             | Some sel \<Rightarrow>
                 if sel \<in> set (map fst (results m))
                 then snd (getSortedFiles comparePaths m)
                        = sel # array_sort comparePaths (remove1 sel (map fst (results m)))
                      \<and> sorted_wrt (\<lambda>a b. comparePaths a b \<le> 0)
                          (array_sort comparePaths (remove1 sel (map fst (results m))))
                 else sorted_wrt (\<lambda>a b. comparePaths a b \<le> 0)
                        (snd (getSortedFiles comparePaths m)))"
proof -
  let ?keys = "map fst (results m)"
  have unchanged: "fst (getSortedFiles comparePaths m) = m"
    by (simp add: getSortedFiles_def Let_def)
  have perm: "mset (snd (getSortedFiles comparePaths m)) = mset ?keys"
    by (simp add: getSortedFiles_def Let_def mset_array_sort)
  have order: "(case selectedEntry m of
               None \<Rightarrow> sorted_wrt (\<lambda>a b. comparePaths a b \<le> 0) (snd (getSortedFiles comparePaths m))
             | Some sel \<Rightarrow>
                 if sel \<in> set ?keys
                 then snd (getSortedFiles comparePaths m)
                        = sel # array_sort comparePaths (remove1 sel ?keys)
                      \<and> sorted_wrt (\<lambda>a b. comparePaths a b \<le> 0)
                          (array_sort comparePaths (remove1 sel ?keys))
                 else sorted_wrt (\<lambda>a b. comparePaths a b \<le> 0)
                        (snd (getSortedFiles comparePaths m)))"
  proof (cases "selectedEntry m")
    case None
    then have "snd (getSortedFiles comparePaths m) = array_sort comparePaths ?keys"
      by (simp add: getSortedFiles_def Let_def array_sort_compareKeys_other)
    with None assms(2) show ?thesis
      by (simp add: sorted_array_sort)
  next
    case (Some sel)
    show ?thesis
    proof (cases "sel \<in> set ?keys")
      case True
      with assms(1) have "array_sort (compareKeys comparePaths (Some sel)) ?keys
                          = sel # array_sort comparePaths (remove1 sel ?keys)"
        by (simp add: array_sort_compareKeys_selected)
      with Some True assms(2) show ?thesis
        by (simp add: getSortedFiles_def Let_def sorted_array_sort)
    next
      case False
      then have "Some sel \<notin> Some ` set ?keys" by auto
      then have "array_sort (compareKeys comparePaths (Some sel)) ?keys
                 = array_sort comparePaths ?keys"
        by (rule array_sort_compareKeys_other)
      with Some False assms(2) show ?thesis
        by (simp add: getSortedFiles_def Let_def sorted_array_sort)
    qed
  qed
  from unchanged perm order show ?thesis by simp
qed

theorem getSortedFiles_selected_first_witness:
  "distinct (map fst (results (exModel (Some ''/cc''))))
   \<and> totalOrder exComparePaths
   \<and> getSortedFiles exComparePaths (exModel (Some ''/cc''))
      = (exModel (Some ''/cc''), [''/cc'', ''/a'', ''/bbb''])"
proof -
  have a: "distinct (map fst (results (exModel (Some ''/cc''))))"
    by (simp add: exModel_def)
  from getSortedFiles_selected_first [OF a exComparePaths_totalOrder] a exComparePaths_totalOrder
  show ?thesis
    by (simp add: exModel_def exComparePaths_def prod_eq_iff)
qed

section \<open>The \<open>$\<close>-expressions of a replacement text\<close>

lemma isDigit_not_dollar: "isDigit c \<Longrightarrow> c \<noteq> CHR ''$''"
  by (auto simp: isDigit_def)

lemma matchIndex_SomeD:
  "matchIndex s = Some (index, r) \<Longrightarrow> s = index @ r \<and> index \<noteq> [] \<and> hd index \<noteq> CHR ''$''"
  by (induction s rule: matchIndex.induct) (auto split: if_splits dest: isDigit_not_dollar)

lemma matchIndex_NoneD:
  "matchIndex s = None \<Longrightarrow> s \<noteq> [] \<Longrightarrow> \<not> isDigit (hd s) \<and> hd s \<noteq> CHR ''&''"
  by (induction s rule: matchIndex.induct) (auto split: if_splits)

lemma matchIndex_append_Some:
  "matchIndex s = Some (index, r) \<Longrightarrow> matchIndex (s @ CHR ''$'' # t) = Some (index, r @ CHR ''$'' # t)"
  by (induction s rule: matchIndex.induct) (auto split: if_splits dest: isDigit_not_dollar)

lemma matchIndex_append_None:
  "matchIndex s = None \<Longrightarrow> s \<noteq> [] \<Longrightarrow> matchIndex (s @ t) = None"
  by (induction s rule: matchIndex.induct) (cases t; auto split: if_splits)+

lemma matchDollars_run:
  assumes "0 < k" and "matchIndex (tok @ rest) = Some (tok, rest)"
  shows "matchDollars (replicate k (CHR ''$'') @ tok @ rest) = Some (replicate k (CHR ''$''), tok, rest)"
proof -
  from assms(2) have tok: "tok \<noteq> []" "hd tok \<noteq> CHR ''$''"
    by (auto dest: matchIndex_SomeD)
  then obtain a tok' where t: "tok = a # tok'" "a \<noteq> CHR ''$''"
    by (cases tok) auto
  have "takeWhile (\<lambda>c. c = CHR ''$'') (replicate k (CHR ''$'') @ tok @ rest) = replicate k (CHR ''$'')"
    using t by (induction k) auto
  moreover have "dropWhile (\<lambda>c. c = CHR ''$'') (replicate k (CHR ''$'') @ tok @ rest) = tok @ rest"
    using t by (induction k) auto
  ultimately show ?thesis
    using assms by (simp add: matchDollars_def)
qed

lemma replaceDollarExprs_run:
  assumes "0 < k" and "matchIndex (tok @ rest) = Some (tok, rest)"
  shows "replaceDollarExprs f (replicate k (CHR ''$'') @ tok @ rest)
         = f (replicate k (CHR ''$'') @ tok) (replicate k (CHR ''$'')) tok @ replaceDollarExprs f rest"
  by (subst replaceDollarExprs.simps) (simp add: matchDollars_run [OF assms])

lemma matchDollars_SomeD:
  "matchDollars s = Some (dollars, index, r) \<Longrightarrow>
     takeWhile (\<lambda>c. c = CHR ''$'') s = dollars \<and> dollars \<noteq> []
     \<and> matchIndex (dropWhile (\<lambda>c. c = CHR ''$'') s) = Some (index, r)"
  by (simp add: matchDollars_def Let_def split: if_splits option.splits)

lemma matchDollars_append_Some:
  assumes "matchDollars s = Some (dollars, index, r)"
  shows "matchDollars (s @ CHR ''$'' # t) = Some (dollars, index, r @ CHR ''$'' # t)"
proof -
  let ?P = "\<lambda>c. c = CHR ''$''"
  from matchDollars_SomeD [OF assms]
  have d: "takeWhile ?P s = dollars" "dollars \<noteq> []"
    and m: "matchIndex (dropWhile ?P s) = Some (index, r)"
    by simp_all
  have ne: "dropWhile ?P s \<noteq> []"
    using m by (cases "dropWhile ?P s") simp_all
  then have "\<not> ?P (hd (dropWhile ?P s))"
    by (rule hd_dropWhile)
  moreover have "hd (dropWhile ?P s) \<in> set s"
    using ne hd_in_set [of "dropWhile ?P s"] set_dropWhileD [of "hd (dropWhile ?P s)" ?P s] by blast
  ultimately obtain x where x: "x \<in> set s" "\<not> ?P x"
    by blast
  have tw: "takeWhile ?P (s @ CHR ''$'' # t) = takeWhile ?P s"
    using x by (rule takeWhile_append1)
  have dw: "dropWhile ?P (s @ CHR ''$'' # t) = dropWhile ?P s @ CHR ''$'' # t"
    using x by (rule dropWhile_append1)
  show ?thesis
    unfolding matchDollars_def Let_def tw dw
    using d matchIndex_append_Some [OF m, of t] by simp
qed

lemma matchDollars_append_None:
  assumes "matchDollars s = None" and "s \<noteq> []" and "last s \<noteq> CHR ''$''"
  shows "matchDollars (s @ t) = None"
proof -
  let ?P = "\<lambda>c. c = CHR ''$''"
  have l: "last s \<in> set s" using assms(2) by simp
  have tw: "takeWhile ?P (s @ t) = takeWhile ?P s"
    using l assms(3) by (rule takeWhile_append1)
  have dw: "dropWhile ?P (s @ t) = dropWhile ?P s @ t"
    using l assms(3) by (rule dropWhile_append1)
  have ne: "dropWhile ?P s \<noteq> []"
    using l assms(3) by (auto simp: dropWhile_eq_Nil_conv)
  show ?thesis
  proof (cases "takeWhile ?P s = []")
    case True
    then show ?thesis
      unfolding matchDollars_def Let_def tw dw by simp
  next
    case False
    with assms(1) have "matchIndex (dropWhile ?P s) = None"
      by (simp add: matchDollars_def Let_def split: option.splits)
    then have "matchIndex (dropWhile ?P s @ t) = None"
      using ne by (rule matchIndex_append_None)
    then show ?thesis
      unfolding matchDollars_def Let_def tw dw by simp
  qed
qed

lemma replaceDollarExprs_append:
  "s = [] \<or> last s \<noteq> CHR ''$'' \<Longrightarrow>
     replaceDollarExprs f (s @ CHR ''$'' # t)
     = replaceDollarExprs f s @ replaceDollarExprs f (CHR ''$'' # t)"
proof (induction f s rule: replaceDollarExprs.induct)
  case (1 f s)
  show ?case
  proof (cases "matchDollars s")
    case (Some x)
    then obtain dollars index r where x: "matchDollars s = Some (dollars, index, r)"
      by (cases x) auto
    have d: "takeWhile (\<lambda>c. c = CHR ''$'') s = dollars"
      and m: "matchIndex (dropWhile (\<lambda>c. c = CHR ''$'') s) = Some (index, r)"
      using x by (auto simp: matchDollars_def Let_def split: if_splits option.splits)
    have "dropWhile (\<lambda>c. c = CHR ''$'') s = index @ r"
      using matchIndex_SomeD [OF m] by simp
    with d have eq: "s = dollars @ index @ r"
      using takeWhile_dropWhile_id [of "\<lambda>c. c = CHR ''$''" s] by simp
    have r: "r = [] \<or> last r \<noteq> CHR ''$''"
      using "1.prems" eq by (cases "r = []") auto
    have ih: "replaceDollarExprs f (r @ CHR ''$'' # t)
              = replaceDollarExprs f r @ replaceDollarExprs f (CHR ''$'' # t)"
      using "1.IH"(2) x r by simp
    have a: "replaceDollarExprs f s = f (dollars @ index) dollars index @ replaceDollarExprs f r"
      using x by (subst replaceDollarExprs.simps) simp
    have b: "replaceDollarExprs f (s @ CHR ''$'' # t)
             = f (dollars @ index) dollars index @ replaceDollarExprs f (r @ CHR ''$'' # t)"
      using matchDollars_append_Some [OF x, of t] by (subst replaceDollarExprs.simps) simp
    show ?thesis
      by (simp add: a b ih)
  next
    case None
    show ?thesis
    proof (cases s)
      case Nil
      then show ?thesis by (simp add: replaceDollarExprs.simps [of f "[]"] matchDollars_def)
    next
      case (Cons c cs)
      with "1.prems" have l: "last s \<noteq> CHR ''$''" "s \<noteq> []" by auto
      have cs: "cs = [] \<or> last cs \<noteq> CHR ''$''"
        using l Cons by (cases "cs = []") auto
      have ih: "replaceDollarExprs f (cs @ CHR ''$'' # t) = replaceDollarExprs f cs @ replaceDollarExprs f (CHR ''$'' # t)"
        using "1.IH"(1) None Cons cs by simp
      have n: "matchDollars (s @ CHR ''$'' # t) = None"
        using None l by (simp add: matchDollars_append_None)
      have a: "replaceDollarExprs f s = c # replaceDollarExprs f cs"
        using None Cons by (subst replaceDollarExprs.simps) simp
      have b: "replaceDollarExprs f (s @ CHR ''$'' # t) = c # replaceDollarExprs f (cs @ CHR ''$'' # t)"
        using n Cons by (subst replaceDollarExprs.simps) simp
      show ?thesis
        by (simp add: a b ih)
    qed
  qed
qed

lemma matchIndex_forms:
  assumes "matchIndex (tok @ rest) = Some (tok, rest)"
  shows "tok = ''&'' \<or> (\<exists>a. tok = [a] \<and> isDigit a) \<or> (\<exists>a b. tok = [a, b] \<and> isDigit a \<and> isDigit b)"
proof (cases "tok @ rest" rule: matchIndex.cases)
  case (1 a b r)
  with assms show ?thesis by (auto split: if_splits)
next
  case (2 a)
  with assms show ?thesis by (auto split: if_splits)
next
  case 3
  with assms show ?thesis by simp
qed

lemma isDigit_value: "isDigit a \<Longrightarrow> digitValue a \<le> 9"
  by (auto simp: isDigit_def digitValue_def)

lemma isDigit_not_amp: "isDigit a \<Longrightarrow> a \<noteq> CHR ''&''"
  by (auto simp: isDigit_def)

lemma parseInt_digit: "isDigit a \<Longrightarrow> parseInt [a] = Some (digitValue a)"
  by (simp add: parseInt_def)

lemma parseInt_digits:
  "isDigit a \<Longrightarrow> isDigit b \<Longrightarrow> parseInt [a, b] = Some (10 * digitValue a + digitValue b)"
  by (simp add: parseInt_def)

lemma parseInt_amp: "parseInt ''&'' = None"
  by (simp add: parseInt_def isDigit_def)

lemma parseInt_index:
  assumes "matchIndex (tok @ rest) = Some (tok, rest)"
  shows "(tok = ''&'' \<and> parseInt tok = None) \<or> (tok \<noteq> ''&'' \<and> (\<exists>n\<le>99. parseInt tok = Some n))"
proof -
  from matchIndex_forms [OF assms]
  consider "tok = ''&''" | a where "tok = [a]" "isDigit a"
    | a b where "tok = [a, b]" "isDigit a" "isDigit b"
    by blast
  then show ?thesis
  proof cases
    case 1
    then show ?thesis by (simp add: parseInt_amp)
  next
    case 2
    then show ?thesis
      using isDigit_value [of a] isDigit_not_amp [of a] by (simp add: parseInt_digit)
  next
    case 3
    then show ?thesis
      using isDigit_value [of a] isDigit_value [of b] by (simp add: parseInt_digits)
  qed
qed

lemma dollarReplacer_odd:
  assumes "odd k"
  shows "dollarReplacer m whole (replicate k (CHR ''$'')) index =
           (if index = ''&'' then replicate (k - 1) (CHR ''$'') @ groupText m 0
            else case parseInt index of
                   None \<Rightarrow> replicate (k - 1) (CHR ''$'')
                 | Some n \<Rightarrow> if n \<noteq> 0 then replicate (k - 1) (CHR ''$'') @ groupText m n else whole)"
proof -
  from assms have "k mod 2 = 1"
    by (simp add: odd_iff_mod_2_eq_one)
  moreover from assms obtain j where "k = Suc j"
    by (cases k) auto
  ultimately show ?thesis
    by (simp add: dollarReplacer_def Let_def split: option.splits)
qed

lemma dollarReplacer_even:
  "even k \<Longrightarrow> dollarReplacer m whole (replicate k (CHR ''$'')) index = whole"
  by (simp add: dollarReplacer_def Let_def even_iff_mod_2_eq_zero)

lemma replaceDollarExprs_expression:
  assumes "pre = [] \<or> last pre \<noteq> CHR ''$''"
    and "matchIndex (tok @ rest) = Some (tok, rest)"
    and "0 < k"
  shows "replaceDollarExprs f (pre @ replicate k (CHR ''$'') @ tok @ rest)
         = replaceDollarExprs f pre
           @ f (replicate k (CHR ''$'') @ tok) (replicate k (CHR ''$'')) tok
           @ replaceDollarExprs f rest"
proof -
  from assms(3) obtain j where k: "k = Suc j"
    by (cases k) auto
  have "replaceDollarExprs f (pre @ CHR ''$'' # (replicate j (CHR ''$'') @ tok @ rest))
        = replaceDollarExprs f pre
          @ replaceDollarExprs f (CHR ''$'' # (replicate j (CHR ''$'') @ tok @ rest))"
    using assms(1) by (rule replaceDollarExprs_append)
  then have "replaceDollarExprs f (pre @ replicate k (CHR ''$'') @ tok @ rest)
        = replaceDollarExprs f pre @ replaceDollarExprs f (replicate k (CHR ''$'') @ tok @ rest)"
    by (simp add: k)
  then show ?thesis
    by (simp add: replaceDollarExprs_run [OF assms(3) assms(2)])
qed

lemma unescapeDollars_pair: "unescapeDollars (CHR ''$'' # CHR ''$'' # s) = CHR ''$'' # unescapeDollars s"
  by simp

lemma replaceDollarExprs_Nil: "replaceDollarExprs f [] = []"
  by (subst replaceDollarExprs.simps) (simp add: matchDollars_def)

lemma replaceDollarExprs_plain:
  "c \<noteq> CHR ''$'' \<Longrightarrow> replaceDollarExprs f (c # s) = c # replaceDollarExprs f s"
  by (subst replaceDollarExprs.simps) (simp add: matchDollars_def)

text \<open>
  The first \<open>replace\<close> of \<open>parseDollars\<close> on a text in which an odd number \<open>k\<close> of dollar
  signs stands before an index \<open>tok\<close> (what \<open>(\d{1,2}|&)\<close> takes there) and after a prefix
  that does not end in a dollar sign: for the ampersand the expression becomes \<open>k - 1\<close>
  dollar signs and \<open>match[0]\<close>, for a number \<open>n\<close> from 1 to 99 it becomes \<open>k - 1\<close> dollar
  signs and the text of group \<open>n\<close>, empty when the group is undefined, and for the number
  0 it stays as it is. An even number of dollar signs leaves the expression as it is
  (\<open>dollarReplacer_even\<close>).
\<close>

lemma replaceDollarExprs_substituted:
  assumes "pre = [] \<or> last pre \<noteq> CHR ''$''"
    and "matchIndex (tok @ rest) = Some (tok, rest)"
    and "odd k"
  shows "(tok = ''&'' \<longrightarrow>
            replaceDollarExprs (dollarReplacer m) (pre @ replicate k (CHR ''$'') @ tok @ rest)
            = replaceDollarExprs (dollarReplacer m) pre
              @ replicate (k - 1) (CHR ''$'')
              @ (case arrayGet m 0 of None \<Rightarrow> [] | Some t \<Rightarrow> t)
              @ replaceDollarExprs (dollarReplacer m) rest)
       \<and> (\<forall>n. parseInt tok = Some n \<and> 0 < n \<longrightarrow>
            n \<le> 99
            \<and> replaceDollarExprs (dollarReplacer m) (pre @ replicate k (CHR ''$'') @ tok @ rest)
              = replaceDollarExprs (dollarReplacer m) pre
                @ replicate (k - 1) (CHR ''$'')
                @ (case arrayGet m n of None \<Rightarrow> [] | Some t \<Rightarrow> t)
                @ replaceDollarExprs (dollarReplacer m) rest)
       \<and> (parseInt tok = Some 0 \<longrightarrow>
            replaceDollarExprs (dollarReplacer m) (pre @ replicate k (CHR ''$'') @ tok @ rest)
            = replaceDollarExprs (dollarReplacer m) pre
              @ replicate k (CHR ''$'') @ tok
              @ replaceDollarExprs (dollarReplacer m) rest)
       \<and> (tok = ''&'' \<or> (\<exists>n. parseInt tok = Some n))"
proof -
  from assms(3) have k: "0 < k"
    by (cases k) auto
  have g: "groupText m n = (case arrayGet m n of None \<Rightarrow> [] | Some t \<Rightarrow> t)" for n
    by (simp add: groupText_def split: option.splits)
  have e: "replaceDollarExprs (dollarReplacer m) (pre @ replicate k (CHR ''$'') @ tok @ rest)
           = replaceDollarExprs (dollarReplacer m) pre
             @ dollarReplacer m (replicate k (CHR ''$'') @ tok) (replicate k (CHR ''$'')) tok
             @ replaceDollarExprs (dollarReplacer m) rest"
    using assms(1,2) k by (rule replaceDollarExprs_expression)
  have amp: "parseInt tok = Some n \<Longrightarrow> tok \<noteq> ''&''" for n
    by (auto simp: parseInt_amp)
  have le: "parseInt tok = Some n \<Longrightarrow> n \<le> 99" for n
    using parseInt_index [OF assms(2)] by auto
  have ex: "tok = ''&'' \<or> (\<exists>n. parseInt tok = Some n)"
    using parseInt_index [OF assms(2)] by auto
  have c1: "dollarReplacer m (replicate k (CHR ''$'') @ tok) (replicate k (CHR ''$'')) tok
            = replicate (k - 1) (CHR ''$'') @ (case arrayGet m 0 of None \<Rightarrow> [] | Some t \<Rightarrow> t)"
    if "tok = ''&''"
    using that by (simp add: dollarReplacer_odd [OF assms(3)] g)
  have c2: "dollarReplacer m (replicate k (CHR ''$'') @ tok) (replicate k (CHR ''$'')) tok
            = replicate (k - 1) (CHR ''$'') @ (case arrayGet m n of None \<Rightarrow> [] | Some t \<Rightarrow> t)"
    if "parseInt tok = Some n" "0 < n" for n
    using that amp [OF that(1)] by (simp add: dollarReplacer_odd [OF assms(3)] g)
  have c3: "dollarReplacer m (replicate k (CHR ''$'') @ tok) (replicate k (CHR ''$'')) tok
            = replicate k (CHR ''$'') @ tok"
    if "parseInt tok = Some 0"
    using that amp [OF that] by (simp add: dollarReplacer_odd [OF assms(3)])
  show ?thesis
  proof (intro conjI impI allI)
    assume t: "tok = ''&''"
    show "replaceDollarExprs (dollarReplacer m) (pre @ replicate k (CHR ''$'') @ tok @ rest)
          = replaceDollarExprs (dollarReplacer m) pre
            @ replicate (k - 1) (CHR ''$'')
            @ (case arrayGet m 0 of None \<Rightarrow> [] | Some t \<Rightarrow> t)
            @ replaceDollarExprs (dollarReplacer m) rest"
      unfolding e c1 [OF t] by simp
  next
    fix n
    assume n: "parseInt tok = Some n \<and> 0 < n"
    then show "n \<le> 99"
      using le by blast
    from n have n1: "parseInt tok = Some n" and n2: "0 < n"
      by simp_all
    show "replaceDollarExprs (dollarReplacer m) (pre @ replicate k (CHR ''$'') @ tok @ rest)
          = replaceDollarExprs (dollarReplacer m) pre
            @ replicate (k - 1) (CHR ''$'')
            @ (case arrayGet m n of None \<Rightarrow> [] | Some t \<Rightarrow> t)
            @ replaceDollarExprs (dollarReplacer m) rest"
      unfolding e c2 [OF n1 n2] by simp
  next
    assume z: "parseInt tok = Some 0"
    show "replaceDollarExprs (dollarReplacer m) (pre @ replicate k (CHR ''$'') @ tok @ rest)
          = replaceDollarExprs (dollarReplacer m) pre
            @ replicate k (CHR ''$'') @ tok
            @ replaceDollarExprs (dollarReplacer m) rest"
      unfolding e c3 [OF z] by simp
  next
    show "tok = ''&'' \<or> (\<exists>n. parseInt tok = Some n)"
      by (rule ex)
  qed
qed

text \<open>
  C3. The code does not do what the claim says at a match whose group 1 holds two dollar
  signs next to each other. The first \<open>replace\<close> turns \<open>$$$1\<close> into \<open>$$\<close> followed by the
  text of group 1, here \<open>$$$$\<close>; the last \<open>replace\<close> then turns every pair of dollar signs
  into one, also the pair that came from the match, and the result is \<open>$$\<close> where the
  claim has \<open>$\<close> followed by the text of group 1, \<open>$$$\<close>. At the match of the spec's
  examples the results are the ones the claim gives.
\<close>

theorem parseDollars_capture_collapsed:
  "parseDollars ''$$$1'' [Some ''$$'', Some ''$$''] = ''$$''
   \<and> CHR ''$'' # groupText [Some ''$$'', Some ''$$''] 1 = ''$$$''
   \<and> parseDollars ''$$1'' [Some ''$$'', Some ''$$''] = ''$1''
   \<and> parseDollars ''$$$1'' [Some ''ab'', Some ''1'', Some ''2''] = ''$1''"
  by code_simp

text \<open>
  C4. The code does not do what the claim says at a match whose text holds two dollar
  signs next to each other: \<open>$1\<close> and \<open>$&\<close> are replaced by the text of group 1 and by
  the whole match after the first \<open>replace\<close>, but the last \<open>replace\<close> turns the two dollar
  signs of that text into one, so \<open>parseDollars\<close> returns \<open>$\<close> where the claim has the
  text of the group, \<open>$$\<close>. For a group without dollar signs, for an undefined group and
  for \<open>$0\<close> and \<open>$00\<close> the results are the ones the claim gives.
\<close>

theorem parseDollars_group_collapsed:
  "parseDollars ''$1'' [Some ''$$'', Some ''$$''] = ''$''
   \<and> groupText [Some ''$$'', Some ''$$''] 1 = ''$$''
   \<and> parseDollars ''$&'' [Some ''$$'', Some ''$$''] = ''$''
   \<and> groupText [Some ''$$'', Some ''$$''] 0 = ''$$''
   \<and> parseDollars ''$1-$2'' [Some ''ab'', Some ''1'', Some ''2''] = ''1-2''
   \<and> parseDollars ''$2'' [Some ''ab'', Some ''1'', None] = []
   \<and> parseDollars ''$0 $00'' [Some ''ab'', Some ''1''] = ''$0 $00''"
  by code_simp

section \<open>Replacing on disk: the walk over the matches\<close>

lemma slice_all: "sliceFrom s 0 = s"
  by (simp add: sliceFrom_def slice_def clipIndex_def)

text \<open>The loop of lines 110 to 119 builds the text of step 4 of the spec.\<close>

lemma foldl_replaceStep_specWalk:
  "concat (fst (foldl (replaceStep contents rw re) (acc, i) ms))
     @ sliceFrom contents (snd (foldl (replaceStep contents rw re) (acc, i) ms))
   = concat acc @ specWalk contents rw re i ms"
  by (induction ms arbitrary: acc i) (simp_all add: replaceStep_def)

lemma newContentsOf_specWalk:
  "newContentsOf contents le ms rw re = withLineEndings le (specWalk contents rw re 0 ms)"
proof (cases "foldl (replaceStep contents rw re) ([], 0) ms")
  case (Pair segments lastIndex)
  with foldl_replaceStep_specWalk [of contents rw re "[]" 0 ms] show ?thesis
    by (simp add: newContentsOf_def withLineEndings_def)
qed

lemma specWalk_filter:
  "specWalk contents rw re i (filter isChecked ms) = specWalk contents rw re i ms"
  by (induction ms arbitrary: i) simp_all

lemma specWalk_unchecked:
  "list_all (\<lambda>m. \<not> isChecked m) ms \<Longrightarrow> specWalk contents rw re i ms = sliceFrom contents i"
  by (induction ms arbitrary: i) simp_all

lemma specWalk_sorted:
  assumes "sorted (map startOffset (filter isChecked ms))"
  shows "specWalk contents rw re i (sort_key startOffset ms) = specWalk contents rw re i ms"
proof -
  have "specWalk contents rw re i (sort_key startOffset ms)
        = specWalk contents rw re i (filter isChecked (sort_key startOffset ms))"
    by (simp only: specWalk_filter)
  also have "filter isChecked (sort_key startOffset ms)
             = sort_key startOffset (filter isChecked ms)"
    by (rule filter_sort)
  also have "sort_key startOffset (filter isChecked ms) = filter isChecked ms"
    using assms by (rule sort_key_id_if_sorted)
  also have "specWalk contents rw re i (filter isChecked ms) = specWalk contents rw re i ms"
    by (rule specWalk_filter)
  finally show ?thesis .
qed

lemma doReplaceOnDisk_written:
  assumes "disk w fullPath = Some file"
    and "fileTimestamp file = timestamp matchInfo"
    and "fileWritable file"
  shows "doReplaceOnDisk w fullPath matchInfo replaceWith re
         = (w\<lparr>disk := (disk w)(fullPath \<mapsto>
                file\<lparr>fileText := withLineEndings (fileLineEndings file)
                                     (specWalk (normalizeLineEndings (fileText file))
                                        replaceWith re 0 (matches matchInfo)),
                     fileWrites := Suc (fileWrites file)\<rparr>)\<rparr>, Resolved)"
  using assms
  by (simp add: doReplaceOnDisk_def getDocumentText_def writeFile_def newContentsOf_specWalk)

lemma doReplaceOnDisk_same_walk:
  assumes "timestamp m1 = timestamp m2"
    and "\<And>contents. specWalk contents rw re 0 (matches m1) = specWalk contents rw re 0 (matches m2)"
  shows "doReplaceOnDisk w fullPath m1 rw re = doReplaceOnDisk w fullPath m2 rw re"
  using assms by (auto simp: doReplaceOnDisk_def newContentsOf_specWalk split: sum.splits)

text \<open>Lengths of slices within the text.\<close>

lemma length_slice:
  "0 \<le> i \<Longrightarrow> i \<le> int (length s) \<Longrightarrow> 0 \<le> j \<Longrightarrow> j \<le> int (length s) \<Longrightarrow>
     int (length (slice s i j)) = max 0 (j - i)"
  by (auto simp: slice_def clipIndex_def)

lemma length_sliceFrom:
  "0 \<le> i \<Longrightarrow> i \<le> int (length s) \<Longrightarrow> int (length (sliceFrom s i)) = int (length s) - i"
  by (simp add: sliceFrom_def length_slice)

text \<open>The conversion of line feeds keeps different texts different.\<close>

lemma toCRLF_Cons:
  "toCRLF (c # s) = (if c = CHR 0x0A then CHR 0x0D # CHR 0x0A # toCRLF s else c # toCRLF s)"
  by (simp add: toCRLF_def)

lemma toCRLF_Nil: "toCRLF [] = []"
  by (simp add: toCRLF_def)

lemma toCRLF_not_LF: "toCRLF s \<noteq> CHR 0x0A # t"
  by (cases s) (auto simp: toCRLF_Cons toCRLF_Nil)

lemma toCRLF_inj: "toCRLF x = toCRLF y \<Longrightarrow> x = y"
proof (induction x arbitrary: y)
  case Nil
  then show ?case
    by (cases y) (auto simp: toCRLF_Cons toCRLF_Nil split: if_splits)
next
  case (Cons c x)
  show ?case
  proof (cases y)
    case Nil
    with Cons.prems show ?thesis
      by (auto simp: toCRLF_Cons toCRLF_Nil split: if_splits)
  next
    case (Cons d y')
    with Cons.prems Cons.IH [of y'] toCRLF_not_LF [of x "toCRLF y'"] toCRLF_not_LF [of y' "toCRLF x"]
    show ?thesis
      by (auto simp: toCRLF_Cons split: if_splits)
  qed
qed

lemma withLineEndings_inj: "withLineEndings le x = withLineEndings le y \<Longrightarrow> x = y"
  by (auto simp: withLineEndings_def dest: toCRLF_inj split: if_splits)

text \<open>Texts with uniform line endings come back as they were.\<close>

lemma toCRLF_normalize: "allCRLF s \<Longrightarrow> toCRLF (normalizeLineEndings s) = s"
  by (induction s rule: normalizeLineEndings.induct)
     (auto simp: toCRLF_Cons toCRLF_Nil split: if_splits)

lemma normalize_noCRLF: "noCRLF s \<Longrightarrow> normalizeLineEndings s = s"
  by (induction s rule: normalizeLineEndings.induct) auto

text \<open>Two checked matches that do not overlap, stored with the later one first.\<close>

lemma specWalk_two_differ:
  assumes "isChecked a" and "isChecked b"
    and "0 \<le> startOffset a" and "startOffset a \<le> endOffset a"
    and "endOffset a \<le> startOffset b" and "startOffset a < startOffset b"
    and "startOffset b \<le> endOffset b" and "endOffset b \<le> int (length contents)"
  shows "specWalk contents rw re 0 [a, b] \<noteq> specWalk contents rw re 0 [b, a]"
proof -
  let ?n = "int (length contents)"
  let ?ra = "int (length (replacementFor rw re a))"
  let ?rb = "int (length (replacementFor rw re b))"
  have l1: "int (length (slice contents 0 (startOffset a))) = startOffset a"
    using assms by (simp add: length_slice)
  have l2: "int (length (slice contents (endOffset a) (startOffset b)))
            = startOffset b - endOffset a"
    using assms by (simp add: length_slice)
  have l3: "int (length (sliceFrom contents (endOffset b))) = ?n - endOffset b"
    using assms by (simp add: length_sliceFrom)
  have l4: "int (length (slice contents 0 (startOffset b))) = startOffset b"
    using assms by (simp add: length_slice)
  have l5: "int (length (slice contents (endOffset b) (startOffset a))) = 0"
    using assms by (simp add: length_slice)
  have l6: "int (length (sliceFrom contents (endOffset a))) = ?n - endOffset a"
    using assms by (simp add: length_sliceFrom)
  have ab: "int (length (specWalk contents rw re 0 [a, b]))
            = startOffset a + ?ra + (startOffset b - endOffset a) + ?rb + (?n - endOffset b)"
    using assms(1,2) by (simp add: l1 l2 l3)
  have ba: "int (length (specWalk contents rw re 0 [b, a]))
            = startOffset b + ?rb + 0 + ?ra + (?n - endOffset a)"
    using assms(1,2) by (simp add: l4 l5 l6)
  have lt: "int (length (specWalk contents rw re 0 [a, b]))
            < int (length (specWalk contents rw re 0 [b, a]))"
    unfolding ab ba using assms by linarith
  show ?thesis
  proof
    assume e: "specWalk contents rw re 0 [a, b] = specWalk contents rw re 0 [b, a]"
    from lt show False
      unfolding e by simp
  qed
qed

text \<open>
  C2, as stated, fails: \<open>_doReplaceOnDisk\<close> does not sort. Two checked matches stored
  with the later one first give another file than the same matches stored in ascending
  order, which is the order that sorting by \<open>startOffset\<close> yields.
\<close>

theorem doReplaceOnDisk_order_matters:
  "map_option fileText
     (disk (fst (doReplaceOnDisk (exWorld (exFile ''abcdef'' 5 None)) ''/a''
                   (exEntry [exMatch 3 4 True, exMatch 0 1 True] 5) ''X'' False)) ''/a'')
   = Some ''abcXXbcdef''
   \<and> map_option fileText
     (disk (fst (doReplaceOnDisk (exWorld (exFile ''abcdef'' 5 None)) ''/a''
                   (exEntry [exMatch 0 1 True, exMatch 3 4 True] 5) ''X'' False)) ''/a'')
   = Some ''XbcXef''
   \<and> sort_key startOffset [exMatch 3 4 True, exMatch 0 1 True]
     = [exMatch 0 1 True, exMatch 3 4 True]"
  by (simp add: doReplaceOnDisk_def getDocumentText_def writeFile_def exWorld_def exFile_def
      exEntry_def exMatch_sel newContentsOf_def replaceStep_def sliceFrom_def
      slice_def clipIndex_def replacementFor_def)

text \<open>
  C2, amended. \<open>_doReplaceOnDisk\<close> does not sort: for a file that is read, has the time
  stamp of the entry and can be written, it writes the text of step 4 of the spec taken
  over the matches in the order in which they are stored. When the checked matches are
  stored in ascending order of \<open>startOffset\<close>, sorting all matches by \<open>startOffset\<close> first
  gives the same result. When two checked matches that lie in the text and do not overlap
  are stored with the later one first, sorting them first gives another result.
\<close>

theorem doReplaceOnDisk_stored_order:
  assumes "disk w fullPath = Some file"
    and "fileTimestamp file = timestamp matchInfo"
    and "fileWritable file"
  shows "doReplaceOnDisk w fullPath matchInfo rw re
         = (w\<lparr>disk := (disk w)(fullPath \<mapsto>
                file\<lparr>fileText := withLineEndings (fileLineEndings file)
                                     (specWalk (normalizeLineEndings (fileText file))
                                        rw re 0 (matches matchInfo)),
                     fileWrites := Suc (fileWrites file)\<rparr>)\<rparr>, Resolved)
       \<and> (sorted (map startOffset (filter isChecked (matches matchInfo))) \<longrightarrow>
            doReplaceOnDisk w fullPath
              (matchInfo\<lparr>matches := sort_key startOffset (matches matchInfo)\<rparr>) rw re
            = doReplaceOnDisk w fullPath matchInfo rw re)
       \<and> (\<forall>a b. matches matchInfo = [b, a] \<and> isChecked a \<and> isChecked b
                  \<and> 0 \<le> startOffset a \<and> startOffset a \<le> endOffset a
                  \<and> endOffset a \<le> startOffset b \<and> startOffset a < startOffset b
                  \<and> startOffset b \<le> endOffset b
                  \<and> endOffset b \<le> int (length (normalizeLineEndings (fileText file))) \<longrightarrow>
            doReplaceOnDisk w fullPath
              (matchInfo\<lparr>matches := sort_key startOffset (matches matchInfo)\<rparr>) rw re
            \<noteq> doReplaceOnDisk w fullPath matchInfo rw re)"
proof (intro conjI impI allI)
  show "doReplaceOnDisk w fullPath matchInfo rw re
         = (w\<lparr>disk := (disk w)(fullPath \<mapsto>
                file\<lparr>fileText := withLineEndings (fileLineEndings file)
                                     (specWalk (normalizeLineEndings (fileText file))
                                        rw re 0 (matches matchInfo)),
                     fileWrites := Suc (fileWrites file)\<rparr>)\<rparr>, Resolved)"
    using assms by (rule doReplaceOnDisk_written)
next
  assume s: "sorted (map startOffset (filter isChecked (matches matchInfo)))"
  show "doReplaceOnDisk w fullPath
          (matchInfo\<lparr>matches := sort_key startOffset (matches matchInfo)\<rparr>) rw re
        = doReplaceOnDisk w fullPath matchInfo rw re"
    by (rule doReplaceOnDisk_same_walk) (simp_all add: specWalk_sorted [OF s])
next
  fix a b
  assume h: "matches matchInfo = [b, a] \<and> isChecked a \<and> isChecked b
             \<and> 0 \<le> startOffset a \<and> startOffset a \<le> endOffset a
             \<and> endOffset a \<le> startOffset b \<and> startOffset a < startOffset b
             \<and> startOffset b \<le> endOffset b
             \<and> endOffset b \<le> int (length (normalizeLineEndings (fileText file)))"
  let ?c = "normalizeLineEndings (fileText file)"
  let ?sorted = "matchInfo\<lparr>matches := sort_key startOffset (matches matchInfo)\<rparr>"
  from h have m: "matches matchInfo = [b, a]" and lt: "startOffset a < startOffset b"
    by simp_all
  have srt: "matches ?sorted = [a, b]"
    using lt by (simp add: m)
  have d: "specWalk ?c rw re 0 [a, b] \<noteq> specWalk ?c rw re 0 [b, a]"
    using h by (intro specWalk_two_differ) simp_all
  have t1: "map_option fileText (disk (fst (doReplaceOnDisk w fullPath ?sorted rw re)) fullPath)
            = Some (withLineEndings (fileLineEndings file) (specWalk ?c rw re 0 [a, b]))"
    using assms by (simp add: doReplaceOnDisk_written srt del: sort_key_simps)
  have t2: "map_option fileText (disk (fst (doReplaceOnDisk w fullPath matchInfo rw re)) fullPath)
            = Some (withLineEndings (fileLineEndings file) (specWalk ?c rw re 0 [b, a]))"
    using assms by (simp add: doReplaceOnDisk_written m)
  show "doReplaceOnDisk w fullPath ?sorted rw re \<noteq> doReplaceOnDisk w fullPath matchInfo rw re"
  proof
    assume "doReplaceOnDisk w fullPath ?sorted rw re = doReplaceOnDisk w fullPath matchInfo rw re"
    with t1 t2 have "withLineEndings (fileLineEndings file) (specWalk ?c rw re 0 [a, b])
                     = withLineEndings (fileLineEndings file) (specWalk ?c rw re 0 [b, a])"
      by simp
    then have "specWalk ?c rw re 0 [a, b] = specWalk ?c rw re 0 [b, a]"
      by (rule withLineEndings_inj)
    with d show False
      by contradiction
  qed
qed

theorem doReplaceOnDisk_stored_order_witness:
  "disk (exWorld (exFile ''abcdef'' 5 None)) ''/a'' = Some (exFile ''abcdef'' 5 None)
   \<and> fileTimestamp (exFile ''abcdef'' 5 None)
       = timestamp (exEntry [exMatch 3 4 True, exMatch 0 1 True] 5)
   \<and> fileWritable (exFile ''abcdef'' 5 None)
   \<and> doReplaceOnDisk (exWorld (exFile ''abcdef'' 5 None)) ''/a''
         ((exEntry [exMatch 3 4 True, exMatch 0 1 True] 5)
            \<lparr>matches := sort_key startOffset
                 (matches (exEntry [exMatch 3 4 True, exMatch 0 1 True] 5))\<rparr>) ''X'' False
       \<noteq> doReplaceOnDisk (exWorld (exFile ''abcdef'' 5 None)) ''/a''
           (exEntry [exMatch 3 4 True, exMatch 0 1 True] 5) ''X'' False
   \<and> sorted (map startOffset (filter isChecked
        (matches (exEntry [exMatch 4 5 False, exMatch 0 1 True, exMatch 3 4 True] 5))))
   \<and> doReplaceOnDisk (exWorld (exFile ''abcdef'' 5 None)) ''/a''
         ((exEntry [exMatch 4 5 False, exMatch 0 1 True, exMatch 3 4 True] 5)
            \<lparr>matches := sort_key startOffset
                 (matches (exEntry [exMatch 4 5 False, exMatch 0 1 True, exMatch 3 4 True] 5))\<rparr>)
         ''X'' False
       = doReplaceOnDisk (exWorld (exFile ''abcdef'' 5 None)) ''/a''
           (exEntry [exMatch 4 5 False, exMatch 0 1 True, exMatch 3 4 True] 5) ''X'' False"
proof -
  let ?w = "exWorld (exFile ''abcdef'' 5 None)"
  let ?f = "exFile ''abcdef'' 5 None"
  let ?e = "exEntry [exMatch 3 4 True, exMatch 0 1 True] 5"
  let ?e' = "exEntry [exMatch 4 5 False, exMatch 0 1 True, exMatch 3 4 True] 5"
  have a: "disk ?w ''/a'' = Some ?f"
    by (simp add: exWorld_def)
  have b: "fileTimestamp ?f = timestamp ?e" and b': "fileTimestamp ?f = timestamp ?e'"
    by (simp_all add: exFile_def exEntry_def)
  have c: "fileWritable ?f"
    by (simp add: exFile_def)
  have h: "matches ?e = [exMatch 3 4 True, exMatch 0 1 True]
           \<and> isChecked (exMatch 0 1 True) \<and> isChecked (exMatch 3 4 True)
           \<and> 0 \<le> startOffset (exMatch 0 1 True)
           \<and> startOffset (exMatch 0 1 True) \<le> endOffset (exMatch 0 1 True)
           \<and> endOffset (exMatch 0 1 True) \<le> startOffset (exMatch 3 4 True)
           \<and> startOffset (exMatch 0 1 True) < startOffset (exMatch 3 4 True)
           \<and> startOffset (exMatch 3 4 True) \<le> endOffset (exMatch 3 4 True)
           \<and> endOffset (exMatch 3 4 True) \<le> int (length (normalizeLineEndings (fileText ?f)))"
    by (simp add: exEntry_def exMatch_sel exFile_def)
  have s: "sorted (map startOffset (filter isChecked (matches ?e')))"
    by (simp add: exEntry_def exMatch_sel)
  from doReplaceOnDisk_stored_order [OF a b c, of "''X''" False] h
  have d: "doReplaceOnDisk ?w ''/a'' (?e\<lparr>matches := sort_key startOffset (matches ?e)\<rparr>) ''X'' False
           \<noteq> doReplaceOnDisk ?w ''/a'' ?e ''X'' False"
    by blast
  from doReplaceOnDisk_stored_order [OF a b' c, of "''X''" False] s
  have e: "doReplaceOnDisk ?w ''/a'' (?e'\<lparr>matches := sort_key startOffset (matches ?e')\<rparr>) ''X'' False
           = doReplaceOnDisk ?w ''/a'' ?e' ''X'' False"
    by blast
  from a b c d s e show ?thesis
    by blast
qed

text \<open>
  C7, as stated, fails: a file that has both carriage return and line feed pairs and bare
  line feeds is read with line feeds only, and is written back with one kind of line
  ending, whatever line endings were detected for it. Its text on disk changes although no
  match is checked.
\<close>

theorem doReplaceOnDisk_mixed_line_endings:
  "list_all (\<lambda>m. \<not> isChecked m) (matches (exEntry [exMatch 0 1 False] 5))
   \<and> map_option fileText
        (disk (fst (doReplaceOnDisk
                      (exWorld (exFile [CHR ''a'', CHR 0x0D, CHR 0x0A, CHR ''b'', CHR 0x0A, CHR ''c'']
                                  5 (Some LINE_ENDINGS_CRLF)))
                      ''/a'' (exEntry [exMatch 0 1 False] 5) ''X'' False)) ''/a'')
      = Some [CHR ''a'', CHR 0x0D, CHR 0x0A, CHR ''b'', CHR 0x0D, CHR 0x0A, CHR ''c'']
   \<and> map_option fileText
        (disk (fst (doReplaceOnDisk
                      (exWorld (exFile [CHR ''a'', CHR 0x0D, CHR 0x0A, CHR ''b'', CHR 0x0A, CHR ''c'']
                                  5 (Some LINE_ENDINGS_LF)))
                      ''/a'' (exEntry [exMatch 0 1 False] 5) ''X'' False)) ''/a'')
      = Some [CHR ''a'', CHR 0x0A, CHR ''b'', CHR 0x0A, CHR ''c'']
   \<and> map_option fileText
        (disk (fst (doReplaceOnDisk
                      (exWorld (exFile [CHR ''a'', CHR 0x0D, CHR 0x0A, CHR ''b'', CHR 0x0A, CHR ''c'']
                                  5 None))
                      ''/a'' (exEntry [exMatch 0 1 False] 5) ''X'' False)) ''/a'')
      = Some [CHR ''a'', CHR 0x0A, CHR ''b'', CHR 0x0A, CHR ''c'']
   \<and> [CHR ''a'', CHR 0x0D, CHR 0x0A, CHR ''b'', CHR 0x0D, CHR 0x0A, CHR ''c'']
       \<noteq> [CHR ''a'', CHR 0x0D, CHR 0x0A, CHR ''b'', CHR 0x0A, CHR ''c'']
   \<and> [CHR ''a'', CHR 0x0A, CHR ''b'', CHR 0x0A, CHR ''c'']
       \<noteq> [CHR ''a'', CHR 0x0D, CHR 0x0A, CHR ''b'', CHR 0x0A, CHR ''c'']"
  by (simp add: doReplaceOnDisk_def getDocumentText_def writeFile_def exWorld_def exFile_def
      exEntry_def exMatch_sel newContentsOf_def replaceStep_def toCRLF_def sliceFrom_def
      slice_def clipIndex_def)

text \<open>
  C7, amended. When no match of the entry is checked and the file is read, has the time
  stamp of the entry and can be written, \<open>_doReplaceOnDisk\<close> resolves and writes the text
  that was read, the text of the file with its line endings normalised, with every line
  feed turned into carriage return and line feed when the detected line endings are CRLF.
  The text on disk is then the one it was when the line endings of the file are uniform
  and detected as they are: all of them carriage return and line feed and CRLF detected,
  or none of them and CRLF not detected.
\<close>

theorem doReplaceOnDisk_unchecked:
  assumes "list_all (\<lambda>m. \<not> isChecked m) (matches matchInfo)"
    and "disk w fullPath = Some file"
    and "fileTimestamp file = timestamp matchInfo"
    and "fileWritable file"
  shows "doReplaceOnDisk w fullPath matchInfo replaceWith re
         = (w\<lparr>disk := (disk w)(fullPath \<mapsto>
                file\<lparr>fileText := withLineEndings (fileLineEndings file)
                                     (normalizeLineEndings (fileText file)),
                     fileWrites := Suc (fileWrites file)\<rparr>)\<rparr>, Resolved)
       \<and> ((fileLineEndings file = Some LINE_ENDINGS_CRLF \<and> allCRLF (fileText file))
            \<or> (fileLineEndings file \<noteq> Some LINE_ENDINGS_CRLF \<and> noCRLF (fileText file)) \<longrightarrow>
            map_option fileText
              (disk (fst (doReplaceOnDisk w fullPath matchInfo replaceWith re)) fullPath)
            = Some (fileText file))"
proof -
  have w: "doReplaceOnDisk w fullPath matchInfo replaceWith re
         = (w\<lparr>disk := (disk w)(fullPath \<mapsto>
                file\<lparr>fileText := withLineEndings (fileLineEndings file)
                                     (normalizeLineEndings (fileText file)),
                     fileWrites := Suc (fileWrites file)\<rparr>)\<rparr>, Resolved)"
    using assms(2-4)
    by (simp add: doReplaceOnDisk_written specWalk_unchecked [OF assms(1)] slice_all)
  have u: "withLineEndings (fileLineEndings file) (normalizeLineEndings (fileText file))
           = fileText file"
    if "(fileLineEndings file = Some LINE_ENDINGS_CRLF \<and> allCRLF (fileText file))
        \<or> (fileLineEndings file \<noteq> Some LINE_ENDINGS_CRLF \<and> noCRLF (fileText file))"
    using that by (auto simp: withLineEndings_def toCRLF_normalize normalize_noCRLF)
  show ?thesis
    unfolding w using u by simp
qed

theorem doReplaceOnDisk_unchecked_witness:
  "list_all (\<lambda>m. \<not> isChecked m) (matches (exEntry [exMatch 0 1 False] 5))
   \<and> disk (exWorld (exFile [CHR ''a'', CHR 0x0D, CHR 0x0A, CHR ''b''] 5 (Some LINE_ENDINGS_CRLF)))
        ''/a''
     = Some (exFile [CHR ''a'', CHR 0x0D, CHR 0x0A, CHR ''b''] 5 (Some LINE_ENDINGS_CRLF))
   \<and> fileTimestamp (exFile [CHR ''a'', CHR 0x0D, CHR 0x0A, CHR ''b''] 5 (Some LINE_ENDINGS_CRLF))
     = timestamp (exEntry [exMatch 0 1 False] 5)
   \<and> fileWritable (exFile [CHR ''a'', CHR 0x0D, CHR 0x0A, CHR ''b''] 5 (Some LINE_ENDINGS_CRLF))
   \<and> allCRLF [CHR ''a'', CHR 0x0D, CHR 0x0A, CHR ''b'']
   \<and> map_option fileText
        (disk (fst (doReplaceOnDisk
                      (exWorld (exFile [CHR ''a'', CHR 0x0D, CHR 0x0A, CHR ''b''] 5
                                  (Some LINE_ENDINGS_CRLF)))
                      ''/a'' (exEntry [exMatch 0 1 False] 5) ''X'' False)) ''/a'')
      = Some [CHR ''a'', CHR 0x0D, CHR 0x0A, CHR ''b'']
   \<and> noCRLF ''abcdef''
   \<and> map_option fileText
        (disk (fst (doReplaceOnDisk (exWorld (exFile ''abcdef'' 5 None)) ''/a''
                      (exEntry [exMatch 0 1 False] 5) ''X'' False)) ''/a'')
      = Some ''abcdef''"
proof -
  let ?crlf = "exFile [CHR ''a'', CHR 0x0D, CHR 0x0A, CHR ''b''] 5 (Some LINE_ENDINGS_CRLF)"
  let ?lf = "exFile ''abcdef'' 5 None"
  let ?e = "exEntry [exMatch 0 1 False] 5"
  have a: "list_all (\<lambda>m. \<not> isChecked m) (matches ?e)"
    by (simp add: exEntry_def exMatch_sel)
  have b: "disk (exWorld ?crlf) ''/a'' = Some ?crlf" and b': "disk (exWorld ?lf) ''/a'' = Some ?lf"
    by (simp_all add: exWorld_def)
  have c: "fileTimestamp ?crlf = timestamp ?e" and c': "fileTimestamp ?lf = timestamp ?e"
    by (simp_all add: exFile_def exEntry_def)
  have d: "fileWritable ?crlf" and d': "fileWritable ?lf"
    by (simp_all add: exFile_def)
  have u: "fileLineEndings ?crlf = Some LINE_ENDINGS_CRLF \<and> allCRLF (fileText ?crlf)"
    by (simp add: exFile_def)
  have u': "fileLineEndings ?lf \<noteq> Some LINE_ENDINGS_CRLF \<and> noCRLF (fileText ?lf)"
    by (simp add: exFile_def)
  from doReplaceOnDisk_unchecked [OF a b c d, of "''X''" False] u
  have r: "map_option fileText
             (disk (fst (doReplaceOnDisk (exWorld ?crlf) ''/a'' ?e ''X'' False)) ''/a'')
           = Some (fileText ?crlf)"
    by blast
  from doReplaceOnDisk_unchecked [OF a b' c' d', of "''X''" False] u'
  have r': "map_option fileText
              (disk (fst (doReplaceOnDisk (exWorld ?lf) ''/a'' ?e ''X'' False)) ''/a'')
            = Some (fileText ?lf)"
    by blast
  have t: "fileText ?crlf = [CHR ''a'', CHR 0x0D, CHR 0x0A, CHR ''b'']" "fileText ?lf = ''abcdef''"
    by (simp_all add: exFile_def)
  from a b c d u r u' r' show ?thesis
    unfolding t by blast
qed

section \<open>The operations of a batch do not disturb each other\<close>

lemma doReplaceOnDisk_frame:
  "p \<noteq> q \<Longrightarrow> fileState (fst (doReplaceOnDisk w q mi rw re)) p = fileState w p"
  by (auto simp: doReplaceOnDisk_def getDocumentText_def writeFile_def fileState_def
      split: option.splits if_splits)

lemma doReplaceOnDisk_current:
  "currentDocument (fst (doReplaceOnDisk w q mi rw re)) = currentDocument w"
  by (auto simp: doReplaceOnDisk_def getDocumentText_def writeFile_def
      split: option.splits if_splits)

lemma doReplaceOnDisk_local:
  assumes "disk w1 q = disk w2 q" and "openDocuments w1 q = openDocuments w2 q"
  shows "snd (doReplaceOnDisk w1 q mi rw re) = snd (doReplaceOnDisk w2 q mi rw re)
         \<and> fileState (fst (doReplaceOnDisk w1 q mi rw re)) q
           = fileState (fst (doReplaceOnDisk w2 q mi rw re)) q"
  using assms
  by (auto simp: doReplaceOnDisk_def getDocumentText_def writeFile_def fileState_def
      split: option.splits if_splits)

lemma doReplaceInOneFile_frame:
  "p \<noteq> q \<Longrightarrow> fileState (fst (doReplaceInOneFile w q mi rw opts)) p = fileState w p"
  using doReplaceOnDisk_frame [of p q w mi rw "isRegexp (orNoOptions opts)"]
  by (auto simp: doReplaceInOneFile_def Let_def getDocumentForPath_def fileState_def
      split: option.splits prod.splits if_splits)

lemma doReplaceInOneFile_current:
  "currentDocument (fst (doReplaceInOneFile w q mi rw opts)) = currentDocument w"
  using doReplaceOnDisk_current [of w q mi rw "isRegexp (orNoOptions opts)"]
  by (auto simp: doReplaceInOneFile_def Let_def getDocumentForPath_def
      split: option.splits prod.splits if_splits)

lemma doReplaceInOneFile_local:
  assumes "fileState w1 q = fileState w2 q"
  shows "snd (doReplaceInOneFile w1 q mi rw opts) = snd (doReplaceInOneFile w2 q mi rw opts)
         \<and> fileState (fst (doReplaceInOneFile w1 q mi rw opts)) q
           = fileState (fst (doReplaceInOneFile w2 q mi rw opts)) q"
proof -
  from assms have d: "disk w1 q = disk w2 q" and o: "openDocuments w1 q = openDocuments w2 q"
    by (simp_all add: fileState_def)
  show ?thesis
    using doReplaceOnDisk_local [OF d o, of mi rw "isRegexp (orNoOptions opts)"] d o
    by (auto simp: doReplaceInOneFile_def Let_def getDocumentForPath_def fileState_def
        split: option.splits prod.splits if_splits)
qed

lemma replaceInItem_Some:
  "map_of rs p = Some mi \<Longrightarrow>
     replaceInItem rw opts p (w, rs)
     = ((fst (doReplaceInOneFile w p mi rw opts),
         AList.update p (fst (snd (doReplaceInOneFile w p mi rw opts))) rs),
        snd (snd (doReplaceInOneFile w p mi rw opts)))"
  by (simp add: replaceInItem_def split: prod.splits)

lemma processItems_step:
  "processItems f (item # items) st errors
   = processItems f items (fst (f item st)) (errors @ itemFailure item (snd (f item st)))"
  by (cases "f item st"; cases "snd (f item st)") (auto simp: itemFailure_def)

lemma processItems_replace:
  assumes "distinct items" and "set items \<subseteq> fst ` set rs1"
  shows "snd (processItems (replaceInItem rw opts) items (w1, rs1) errs0)
           = errs0 @ concat (map (\<lambda>p. itemFailure p
                 (snd (snd (doReplaceInOneFile w1 p (the (map_of rs1 p)) rw opts)))) items)
       \<and> (\<forall>p \<in> set items.
             fileState (fst (fst (processItems (replaceInItem rw opts) items (w1, rs1) errs0))) p
               = fileState (fst (doReplaceInOneFile w1 p (the (map_of rs1 p)) rw opts)) p
             \<and> map_of (snd (fst (processItems (replaceInItem rw opts) items (w1, rs1) errs0))) p
               = Some (fst (snd (doReplaceInOneFile w1 p (the (map_of rs1 p)) rw opts))))
       \<and> (\<forall>q. q \<notin> set items \<longrightarrow>
             fileState (fst (fst (processItems (replaceInItem rw opts) items (w1, rs1) errs0))) q
               = fileState w1 q
             \<and> map_of (snd (fst (processItems (replaceInItem rw opts) items (w1, rs1) errs0))) q
               = map_of rs1 q)
       \<and> map fst (snd (fst (processItems (replaceInItem rw opts) items (w1, rs1) errs0)))
           = map fst rs1
       \<and> currentDocument (fst (fst (processItems (replaceInItem rw opts) items (w1, rs1) errs0)))
           = currentDocument w1"
  using assms
proof (induction items arbitrary: w1 rs1 errs0)
  case Nil
  then show ?case by simp
next
  case (Cons p ps)
  from Cons.prems have "p \<in> fst ` set rs1"
    by simp
  then have "map_of rs1 p \<noteq> None"
    by (simp add: map_of_eq_None_iff)
  then obtain mi where mi: "map_of rs1 p = Some mi"
    by blast
  define w2 where "w2 = fst (doReplaceInOneFile w1 p mi rw opts)"
  define mi' where "mi' = fst (snd (doReplaceInOneFile w1 p mi rw opts))"
  define pr where "pr = snd (snd (doReplaceInOneFile w1 p mi rw opts))"
  define rs2 where "rs2 = AList.update p mi' rs1"
  have step: "replaceInItem rw opts p (w1, rs1) = ((w2, rs2), pr)"
    by (simp add: replaceInItem_Some [OF mi] w2_def mi'_def pr_def rs2_def)
  have keys: "map fst rs2 = map fst rs1"
    using \<open>p \<in> fst ` set rs1\<close> by (simp add: rs2_def update_keys)
  have mo: "map_of rs2 q = (if q = p then Some mi' else map_of rs1 q)" for q
    by (simp add: rs2_def update_conv')
  have fr: "q \<noteq> p \<Longrightarrow> fileState w2 q = fileState w1 q" for q
    unfolding w2_def by (rule doReplaceInOneFile_frame)
  have cur: "currentDocument w2 = currentDocument w1"
    unfolding w2_def by (rule doReplaceInOneFile_current)
  have "fst ` set rs2 = fst ` set rs1"
    using arg_cong [OF keys, of set] by simp
  then have ps: "distinct ps" "set ps \<subseteq> fst ` set rs2" "p \<notin> set ps"
    using Cons.prems by simp_all
  let ?R = "processItems (replaceInItem rw opts) ps (w2, rs2) (errs0 @ itemFailure p pr)"
  have unfold: "processItems (replaceInItem rw opts) (p # ps) (w1, rs1) errs0 = ?R"
    by (simp only: processItems_step step fst_conv snd_conv)
  note ih = Cons.IH [OF ps(1,2), of w2 "errs0 @ itemFailure p pr"]
  have same: "snd (doReplaceInOneFile w2 q (the (map_of rs2 q)) rw opts)
                = snd (doReplaceInOneFile w1 q (the (map_of rs1 q)) rw opts)
              \<and> fileState (fst (doReplaceInOneFile w2 q (the (map_of rs2 q)) rw opts)) q
                = fileState (fst (doReplaceInOneFile w1 q (the (map_of rs1 q)) rw opts)) q"
    if "q \<in> set ps" for q
  proof -
    from that ps(3) have "q \<noteq> p" by auto
    then show ?thesis
      using doReplaceInOneFile_local [OF fr, of q "the (map_of rs1 q)" rw opts]
      by (simp add: mo)
  qed
  have errs: "snd ?R = errs0 @ concat (map (\<lambda>q. itemFailure q
                 (snd (snd (doReplaceInOneFile w1 q (the (map_of rs1 q)) rw opts)))) (p # ps))"
  proof -
    let ?F1 = "\<lambda>q. itemFailure q (snd (snd (doReplaceInOneFile w1 q (the (map_of rs1 q)) rw opts)))"
    let ?F2 = "\<lambda>q. itemFailure q (snd (snd (doReplaceInOneFile w2 q (the (map_of rs2 q)) rw opts)))"
    have m: "map ?F2 ps = map ?F1 ps"
      using same by (intro map_cong) auto
    have first: "itemFailure p pr = ?F1 p"
      by (simp add: pr_def mi)
    have "snd ?R = (errs0 @ itemFailure p pr) @ concat (map ?F2 ps)"
      using ih by blast
    also have "\<dots> = (errs0 @ itemFailure p pr) @ concat (map ?F1 ps)"
      by (simp only: m)
    also have "\<dots> = errs0 @ concat (map ?F1 (p # ps))"
      by (simp add: first)
    finally show ?thesis .
  qed
  have inItems: "fileState (fst (fst ?R)) q
               = fileState (fst (doReplaceInOneFile w1 q (the (map_of rs1 q)) rw opts)) q
             \<and> map_of (snd (fst ?R)) q
               = Some (fst (snd (doReplaceInOneFile w1 q (the (map_of rs1 q)) rw opts)))"
    if "q \<in> set (p # ps)" for q
  proof (cases "q = p")
    case True
    with ps(3) ih have "fileState (fst (fst ?R)) q = fileState w2 q"
      and "map_of (snd (fst ?R)) q = map_of rs2 q"
      by auto
    with True show ?thesis
      by (simp add: mo mi w2_def mi'_def)
  next
    case False
    with that have q: "q \<in> set ps" by simp
    with ih have "fileState (fst (fst ?R)) q
               = fileState (fst (doReplaceInOneFile w2 q (the (map_of rs2 q)) rw opts)) q"
      and "map_of (snd (fst ?R)) q
               = Some (fst (snd (doReplaceInOneFile w2 q (the (map_of rs2 q)) rw opts)))"
      by auto
    with same [OF q] show ?thesis
      by simp
  qed
  have outside: "fileState (fst (fst ?R)) q = fileState w1 q
                 \<and> map_of (snd (fst ?R)) q = map_of rs1 q"
    if "q \<notin> set (p # ps)" for q
  proof -
    from that have "q \<noteq> p" "q \<notin> set ps" by auto
    with ih fr [of q] show ?thesis
      by (simp add: mo)
  qed
  have rest: "map fst (snd (fst ?R)) = map fst rs1"
    "currentDocument (fst (fst ?R)) = currentDocument w1"
    using ih keys cur by simp_all
  show ?case
    unfolding unfold using errs inItems outside rest by blast
qed

lemma openFirstModified_fileState:
  "fileState (openFirstModified cmp w rs) p = fileState w p"
  by (simp add: openFirstModified_def fileState_def Let_def split: option.splits)

lemma failedFiles_keys:
  assumes "distinct (map fst rs)"
  shows "failedFiles w rs rw opts
         = concat (map (\<lambda>p. itemFailure p
               (snd (snd (doReplaceInOneFile w p (the (map_of rs p)) rw opts)))) (map fst rs))"
proof -
  have "(case x of (p, fr) \<Rightarrow> itemFailure p (snd (snd (doReplaceInOneFile w p fr rw opts))))
        = itemFailure (fst x) (snd (snd (doReplaceInOneFile w (fst x) (the (map_of rs (fst x))) rw opts)))"
    if "x \<in> set rs" for x
  proof -
    obtain p fr where x: "x = (p, fr)"
      by (cases x)
    with that assms have "map_of rs p = Some fr"
      by simp
    then show ?thesis
      by (simp add: x)
  qed
  then show ?thesis
    by (simp add: failedFiles_def comp_def cong: map_cong)
qed

lemma performReplacements_batch:
  assumes "distinct (map fst rs)"
  shows "snd (snd (performReplacements cmp w rs rw opts))
           = (if failedFiles w rs rw opts = [] then Resolved
              else Rejected (failedFiles w rs rw opts))
       \<and> (\<forall>p fr. (p, fr) \<in> set rs \<longrightarrow>
             fileState (fst (performReplacements cmp w rs rw opts)) p
               = fileState (fst (doReplaceInOneFile w p fr rw opts)) p
             \<and> map_of (fst (snd (performReplacements cmp w rs rw opts))) p
               = Some (fst (snd (doReplaceInOneFile w p fr rw opts))))
       \<and> (\<forall>q. q \<notin> fst ` set rs \<longrightarrow>
             fileState (fst (performReplacements cmp w rs rw opts)) q = fileState w q)
       \<and> map fst (fst (snd (performReplacements cmp w rs rw opts))) = map fst rs"
proof -
  let ?R = "processItems (replaceInItem rw opts) (map fst rs) (w, rs) []"
  have sub: "set (map fst rs) \<subseteq> fst ` set rs"
    by simp
  note inv = processItems_replace [OF assms sub, of rw opts w "[]"]
  have errs: "snd ?R = failedFiles w rs rw opts"
    using inv by (simp add: failedFiles_keys [OF assms])
  have P: "performReplacements cmp w rs rw opts
           = (if snd ?R = [] \<and> (case opts of None \<Rightarrow> False | Some v \<Rightarrow> forceFilesOpen v)
              then openFirstModified cmp (fst (fst ?R)) (snd (fst ?R)) else fst (fst ?R),
              snd (fst ?R),
              if snd ?R = [] then Resolved else Rejected (snd ?R))"
    by (simp add: performReplacements_def doInParallel_aggregateErrors_def split: prod.splits)
  have fs: "fileState (fst (performReplacements cmp w rs rw opts)) q = fileState (fst (fst ?R)) q" for q
    by (simp add: P openFirstModified_fileState)
  have r: "fst (snd (performReplacements cmp w rs rw opts)) = snd (fst ?R)"
    by (simp add: P)
  have o: "snd (snd (performReplacements cmp w rs rw opts))
           = (if snd ?R = [] then Resolved else Rejected (snd ?R))"
    by (simp add: P)
  have each: "fileState (fst (fst ?R)) p = fileState (fst (doReplaceInOneFile w p fr rw opts)) p
              \<and> map_of (snd (fst ?R)) p = Some (fst (snd (doReplaceInOneFile w p fr rw opts)))"
    if "(p, fr) \<in> set rs" for p fr
  proof -
    from that assms have "map_of rs p = Some fr" by simp
    moreover from that have "p \<in> set (map fst rs)" by force
    ultimately show ?thesis
      using inv by auto
  qed
  have out: "fileState (fst (fst ?R)) q = fileState w q" if "q \<notin> fst ` set rs" for q
    using that inv by simp
  have keys: "map fst (snd (fst ?R)) = map fst rs"
    using inv by blast
  show ?thesis
    unfolding fs r o errs using each out keys by blast
qed

section \<open>The outcome of a batch\<close>

lemma itemFailure_Nil: "itemFailure item p = [] \<longleftrightarrow> p = Resolved"
  by (cases p) (simp_all add: itemFailure_def)

lemma itemFailure_set: "(q, e) \<in> set (itemFailure item p) \<longleftrightarrow> q = item \<and> p = Rejected e"
  by (cases p) (auto simp: itemFailure_def)

lemma failedFiles_set:
  "(p, e) \<in> set (failedFiles w rs rw opts)
   \<longleftrightarrow> (\<exists>fr. (p, fr) \<in> set rs \<and> snd (snd (doReplaceInOneFile w p fr rw opts)) = Rejected e)"
  by (auto simp: failedFiles_def itemFailure_set)

lemma failedFiles_Nil:
  "failedFiles w rs rw opts = []
   \<longleftrightarrow> list_all (\<lambda>(p, fr). snd (snd (doReplaceInOneFile w p fr rw opts)) = Resolved) rs"
  by (auto simp: failedFiles_def itemFailure_Nil list_all_iff)

text \<open>
  C6. For results with distinct keys, \<open>performReplacements\<close> resolves when the operation
  of every file resolves, and only then; otherwise it is rejected with the list of the
  paths and errors of exactly the files whose operation is rejected. Whatever the other
  files do, the file and the document of every path of the results are left as the
  operation of that path alone leaves them.
\<close>

theorem performReplacements_aggregates:
  assumes "distinct (map fst rs)"
  shows "snd (snd (performReplacements cmp w rs rw opts))
           = (if failedFiles w rs rw opts = [] then Resolved
              else Rejected (failedFiles w rs rw opts))
       \<and> (snd (snd (performReplacements cmp w rs rw opts)) = Resolved
            \<longleftrightarrow> list_all (\<lambda>(p, fr). snd (snd (doReplaceInOneFile w p fr rw opts)) = Resolved) rs)
       \<and> (\<forall>p e. (p, e) \<in> set (failedFiles w rs rw opts)
            \<longleftrightarrow> (\<exists>fr. (p, fr) \<in> set rs
                      \<and> snd (snd (doReplaceInOneFile w p fr rw opts)) = Rejected e))
       \<and> (\<forall>p fr. (p, fr) \<in> set rs \<longrightarrow>
             fileState (fst (performReplacements cmp w rs rw opts)) p
               = fileState (fst (doReplaceInOneFile w p fr rw opts)) p)"
proof -
  note b = performReplacements_batch [OF assms, of cmp w rw opts]
  have o: "snd (snd (performReplacements cmp w rs rw opts))
           = (if failedFiles w rs rw opts = [] then Resolved
              else Rejected (failedFiles w rs rw opts))"
    using b by blast
  have r: "snd (snd (performReplacements cmp w rs rw opts)) = Resolved
           \<longleftrightarrow> list_all (\<lambda>(p, fr). snd (snd (doReplaceInOneFile w p fr rw opts)) = Resolved) rs"
    unfolding o by (simp add: failedFiles_Nil)
  have f: "\<forall>p fr. (p, fr) \<in> set rs \<longrightarrow>
             fileState (fst (performReplacements cmp w rs rw opts)) p
               = fileState (fst (doReplaceInOneFile w p fr rw opts)) p"
    using b by blast
  from o r f show ?thesis
    by (simp add: failedFiles_set)
qed

theorem performReplacements_aggregates_witness:
  "distinct (map fst exResults)
   \<and> snd (snd (performReplacements exComparePaths exWorld2 exResults ''X'' None))
       = Rejected [(''/b'', ERROR_FILE_CHANGED)]
   \<and> fileState (fst (performReplacements exComparePaths exWorld2 exResults ''X'' None)) ''/a''
       = (Some ((exFile ''Xbcdef'' 5 None)\<lparr>fileWrites := 1\<rparr>), None)"
proof -
  have d: "distinct (map fst exResults)"
    by (simp add: exResults_def)
  have a: "doReplaceInOneFile exWorld2 ''/a'' (exEntry [exMatch 0 1 True] 5) ''X'' None
           = (exWorld2\<lparr>disk := (disk exWorld2)(''/a'' \<mapsto> (exFile ''Xbcdef'' 5 None)\<lparr>fileWrites := 1\<rparr>)\<rparr>,
              exEntry [exMatch 0 1 True] 5, Resolved)"
    by (simp add: doReplaceInOneFile_def doReplaceOnDisk_def getDocumentText_def writeFile_def
        orNoOptions_def exWorld2_def exFile_def exEntry_def exMatch_sel newContentsOf_def
        replaceStep_def replacementFor_def sliceFrom_def slice_def clipIndex_def)
  have b: "doReplaceInOneFile exWorld2 ''/b'' (exEntry [exMatch 0 1 True] 5) ''X'' None
           = (exWorld2, exEntry [exMatch 0 1 True] 5, Rejected ERROR_FILE_CHANGED)"
    by (simp add: doReplaceInOneFile_def doReplaceOnDisk_def getDocumentText_def
        orNoOptions_def exWorld2_def exFile_def exEntry_def)
  have f: "failedFiles exWorld2 exResults ''X'' None = [(''/b'', ERROR_FILE_CHANGED)]"
    by (simp add: failedFiles_def exResults_def a b itemFailure_def)
  have m: "(''/a'', exEntry [exMatch 0 1 True] 5) \<in> set exResults"
    by (simp add: exResults_def)
  from performReplacements_aggregates [OF d, of exComparePaths exWorld2 "''X''" None] m
  have "snd (snd (performReplacements exComparePaths exWorld2 exResults ''X'' None))
          = (if failedFiles exWorld2 exResults ''X'' None = [] then Resolved
             else Rejected (failedFiles exWorld2 exResults ''X'' None))"
    and "fileState (fst (performReplacements exComparePaths exWorld2 exResults ''X'' None)) ''/a''
          = fileState (fst (doReplaceInOneFile exWorld2 ''/a'' (exEntry [exMatch 0 1 True] 5) ''X'' None)) ''/a''"
    by blast+
  moreover have "fileState (fst (doReplaceInOneFile exWorld2 ''/a''
                      (exEntry [exMatch 0 1 True] 5) ''X'' None)) ''/a''
                 = (Some ((exFile ''Xbcdef'' 5 None)\<lparr>fileWrites := 1\<rparr>), None)"
    by (simp only: a fst_conv) (simp add: fileState_def exWorld2_def)
  ultimately show ?thesis
    using d by (simp add: f)
qed

section \<open>Files without a checked match\<close>

lemma doReplaceInOneFile_on_disk:
  "openDocuments w p = None \<Longrightarrow> \<not> forceFilesOpen (orNoOptions opts) \<Longrightarrow>
     doReplaceInOneFile w p fr rw opts
     = (fst (doReplaceOnDisk w p fr rw (isRegexp (orNoOptions opts))), fr,
        snd (doReplaceOnDisk w p fr rw (isRegexp (orNoOptions opts))))"
  by (simp add: doReplaceInOneFile_def Let_def split: prod.splits)

lemma doReplaceOnDisk_missing:
  "disk w p = None \<Longrightarrow> doReplaceOnDisk w p fr rw re = (w, Rejected (FileSystemError ''NotFound''))"
  by (simp add: doReplaceOnDisk_def getDocumentText_def)

lemma doReplaceOnDisk_stale:
  "disk w p = Some f \<Longrightarrow> fileTimestamp f \<noteq> timestamp fr \<Longrightarrow>
     doReplaceOnDisk w p fr rw re = (w, Rejected ERROR_FILE_CHANGED)"
  by (simp add: doReplaceOnDisk_def getDocumentText_def)

text \<open>
  C10, as stated, fails at two inputs. A file that is not open and has no checked match
  is not read by \<open>_doReplaceOnDisk\<close> when files are forced open: it is opened as a
  document, a stale time stamp is not reported and nothing is written. And the text that
  is written back is not always the text of the file: a file with both carriage return
  and line feed pairs and bare line feeds is written back with line feeds only when no
  CRLF line endings were detected for it.
\<close>

theorem performReplacements_unchecked_rewritten:
  "\<not> hasCheckedMatches (exEntry [exMatch 0 1 False] 5)
   \<and> openDocuments (exWorld (exFile ''abcdef'' 6 None)) ''/a'' = None
   \<and> fileTimestamp (exFile ''abcdef'' 6 None) \<noteq> timestamp (exEntry [exMatch 0 1 False] 5)
   \<and> snd (snd (performReplacements exComparePaths (exWorld (exFile ''abcdef'' 6 None))
                  [(''/a'', exEntry [exMatch 0 1 False] 5)] ''X''
                  (Some \<lparr>forceFilesOpen = True, isRegexp = False\<rparr>)))
     = Resolved
   \<and> fileState (fst (performReplacements exComparePaths (exWorld (exFile ''abcdef'' 6 None))
                        [(''/a'', exEntry [exMatch 0 1 False] 5)] ''X''
                        (Some \<lparr>forceFilesOpen = True, isRegexp = False\<rparr>))) ''/a''
     = (Some (exFile ''abcdef'' 6 None), Some \<lparr>history = [[]], batch = None\<rparr>)
   \<and> disk (fst (performReplacements exComparePaths
                  (exWorld (exFile [CHR ''a'', CHR 0x0D, CHR 0x0A, CHR ''b'', CHR 0x0A, CHR ''c'']
                              5 None))
                  [(''/a'', exEntry [exMatch 0 1 False] 5)] ''X'' None)) ''/a''
     = Some ((exFile [CHR ''a'', CHR 0x0A, CHR ''b'', CHR 0x0A, CHR ''c''] 5 None)
               \<lparr>fileWrites := 1\<rparr>)
   \<and> [CHR ''a'', CHR 0x0A, CHR ''b'', CHR 0x0A, CHR ''c'']
       \<noteq> [CHR ''a'', CHR 0x0D, CHR 0x0A, CHR ''b'', CHR 0x0A, CHR ''c'']"
  by (simp add: performReplacements_def doInParallel_aggregateErrors_def replaceInItem_def
      doReplaceInOneFile_def doReplaceOnDisk_def getDocumentText_def writeFile_def
      getDocumentForPath_def doReplaceInDocument_def batchOperation_def openFirstModified_def
      fileState_def Let_def
      orNoOptions_def exWorld_def exFile_def exEntry_def exMatch_sel newContentsOf_def
      replaceStep_def toCRLF_def sliceFrom_def slice_def clipIndex_def hasCheckedMatches_def
      exComparePaths_def)

text \<open>
  C10, amended. \<open>performReplacements\<close> runs an operation for every key of the results,
  also for a file with no checked match. When that file is not open and files are not
  forced open, the file is read: a missing file is reported by the batch; a file whose
  time stamp differs from the entry's is reported with \<open>ERROR_FILE_CHANGED\<close> and left as
  it is; otherwise a writable file receives one write of the text that was read, with
  every line feed turned into carriage return and line feed when its line endings are
  CRLF, which is the text the file had when its line endings are uniform and detected as
  they are.
\<close>

theorem performReplacements_unchecked_file:
  assumes "distinct (map fst rs)"
    and "(p, fr) \<in> set rs"
    and "\<not> hasCheckedMatches fr"
    and "openDocuments w p = None"
    and "\<not> forceFilesOpen (orNoOptions opts)"
  shows "(disk w p = None \<longrightarrow>
            (\<exists>errs. snd (snd (performReplacements cmp w rs rw opts)) = Rejected errs
                    \<and> (p, FileSystemError ''NotFound'') \<in> set errs))
       \<and> (\<forall>f. disk w p = Some f \<and> fileTimestamp f \<noteq> timestamp fr \<longrightarrow>
            (\<exists>errs. snd (snd (performReplacements cmp w rs rw opts)) = Rejected errs
                    \<and> (p, ERROR_FILE_CHANGED) \<in> set errs)
            \<and> disk (fst (performReplacements cmp w rs rw opts)) p = Some f)
       \<and> (\<forall>f. disk w p = Some f \<and> fileTimestamp f = timestamp fr \<and> fileWritable f \<longrightarrow>
            disk (fst (performReplacements cmp w rs rw opts)) p
            = Some (f\<lparr>fileText := withLineEndings (fileLineEndings f)
                                     (normalizeLineEndings (fileText f)),
                      fileWrites := Suc (fileWrites f)\<rparr>)
            \<and> ((fileLineEndings f = Some LINE_ENDINGS_CRLF \<and> allCRLF (fileText f))
                 \<or> (fileLineEndings f \<noteq> Some LINE_ENDINGS_CRLF \<and> noCRLF (fileText f)) \<longrightarrow>
                disk (fst (performReplacements cmp w rs rw opts)) p
                = Some (f\<lparr>fileWrites := Suc (fileWrites f)\<rparr>)))"
proof -
  let ?re = "isRegexp (orNoOptions opts)"
  note b = performReplacements_batch [OF assms(1), of cmp w rw opts]
  have op: "doReplaceInOneFile w p fr rw opts
            = (fst (doReplaceOnDisk w p fr rw ?re), fr, snd (doReplaceOnDisk w p fr rw ?re))"
    using assms(4,5) by (rule doReplaceInOneFile_on_disk)
  have st: "disk (fst (performReplacements cmp w rs rw opts)) p
            = disk (fst (doReplaceOnDisk w p fr rw ?re)) p"
    using b assms(2) by (auto simp: fileState_def op)
  have rep: "\<exists>errs. snd (snd (performReplacements cmp w rs rw opts)) = Rejected errs
                    \<and> (p, e) \<in> set errs"
    if "snd (doReplaceOnDisk w p fr rw ?re) = Rejected e" for e
  proof -
    from that assms(2) have "(p, e) \<in> set (failedFiles w rs rw opts)"
      by (auto simp: failedFiles_set op)
    moreover from this have "failedFiles w rs rw opts \<noteq> []"
      by auto
    ultimately show ?thesis
      using b by auto
  qed
  have un: "list_all (\<lambda>m. \<not> isChecked m) (matches fr)"
    using assms(3) by (simp add: hasCheckedMatches_def list_all_iff list_ex_iff)
  show ?thesis
  proof (intro conjI impI allI)
    assume "disk w p = None"
    then have "snd (doReplaceOnDisk w p fr rw ?re) = Rejected (FileSystemError ''NotFound'')"
      by (simp add: doReplaceOnDisk_missing)
    then show "\<exists>errs. snd (snd (performReplacements cmp w rs rw opts)) = Rejected errs
                    \<and> (p, FileSystemError ''NotFound'') \<in> set errs"
      by (rule rep)
  next
    fix f
    assume a: "disk w p = Some f \<and> fileTimestamp f \<noteq> timestamp fr"
    then have d: "doReplaceOnDisk w p fr rw ?re = (w, Rejected ERROR_FILE_CHANGED)"
      by (simp add: doReplaceOnDisk_stale)
    then have "snd (doReplaceOnDisk w p fr rw ?re) = Rejected ERROR_FILE_CHANGED"
      by simp
    then show "\<exists>errs. snd (snd (performReplacements cmp w rs rw opts)) = Rejected errs
                    \<and> (p, ERROR_FILE_CHANGED) \<in> set errs"
      by (rule rep)
    show "disk (fst (performReplacements cmp w rs rw opts)) p = Some f"
      using a by (simp add: st d)
  next
    fix f
    assume a: "disk w p = Some f \<and> fileTimestamp f = timestamp fr \<and> fileWritable f"
    then have "doReplaceOnDisk w p fr rw ?re
         = (w\<lparr>disk := (disk w)(p \<mapsto>
                f\<lparr>fileText := withLineEndings (fileLineEndings f)
                                  (specWalk (normalizeLineEndings (fileText f)) rw ?re 0
                                     (matches fr)),
                  fileWrites := Suc (fileWrites f)\<rparr>)\<rparr>, Resolved)"
      by (simp add: doReplaceOnDisk_written)
    then show wr: "disk (fst (performReplacements cmp w rs rw opts)) p
            = Some (f\<lparr>fileText := withLineEndings (fileLineEndings f)
                                     (normalizeLineEndings (fileText f)),
                      fileWrites := Suc (fileWrites f)\<rparr>)"
      by (simp add: st specWalk_unchecked [OF un] slice_all)
    assume u: "(fileLineEndings f = Some LINE_ENDINGS_CRLF \<and> allCRLF (fileText f))
               \<or> (fileLineEndings f \<noteq> Some LINE_ENDINGS_CRLF \<and> noCRLF (fileText f))"
    then have "withLineEndings (fileLineEndings f) (normalizeLineEndings (fileText f))
               = fileText f"
      by (auto simp: withLineEndings_def toCRLF_normalize normalize_noCRLF)
    then show "disk (fst (performReplacements cmp w rs rw opts)) p
               = Some (f\<lparr>fileWrites := Suc (fileWrites f)\<rparr>)"
      by (simp add: wr)
  qed
qed

theorem performReplacements_unchecked_file_witness:
  "distinct (map fst exUnchecked)
   \<and> (''/b'', exEntry [] 5) \<in> set exUnchecked
   \<and> \<not> hasCheckedMatches (exEntry [] 5)
   \<and> openDocuments exWorld2 ''/b'' = None
   \<and> \<not> forceFilesOpen (orNoOptions None)
   \<and> disk exWorld2 ''/b'' = Some (exFile ''abcdef'' 6 None)
   \<and> fileTimestamp (exFile ''abcdef'' 6 None) \<noteq> timestamp (exEntry [] 5)
   \<and> (\<exists>errs. snd (snd (performReplacements exComparePaths exWorld2 exUnchecked ''X'' None))
                = Rejected errs
              \<and> (''/b'', ERROR_FILE_CHANGED) \<in> set errs)
   \<and> disk (fst (performReplacements exComparePaths exWorld2 exUnchecked ''X'' None)) ''/b''
     = Some (exFile ''abcdef'' 6 None)
   \<and> (''/a'', exEntry [exMatch 0 1 False] 5) \<in> set exUnchecked
   \<and> \<not> hasCheckedMatches (exEntry [exMatch 0 1 False] 5)
   \<and> openDocuments exWorld2 ''/a'' = None
   \<and> disk exWorld2 ''/a'' = Some (exFile ''abcdef'' 5 None)
   \<and> fileTimestamp (exFile ''abcdef'' 5 None) = timestamp (exEntry [exMatch 0 1 False] 5)
   \<and> fileWritable (exFile ''abcdef'' 5 None)
   \<and> disk (fst (performReplacements exComparePaths exWorld2 exUnchecked ''X'' None)) ''/a''
     = Some ((exFile ''abcdef'' 5 None)\<lparr>fileWrites := 1\<rparr>)"
proof -
  have d: "distinct (map fst exUnchecked)"
    by (simp add: exUnchecked_def)
  have o: "\<not> forceFilesOpen (orNoOptions None)"
    by (simp add: orNoOptions_def)
  have b1: "(''/b'', exEntry [] 5) \<in> set exUnchecked"
    by (simp add: exUnchecked_def)
  have b2: "\<not> hasCheckedMatches (exEntry [] 5)"
    by (simp add: hasCheckedMatches_def exEntry_def)
  have b3: "openDocuments exWorld2 ''/b'' = None"
    by (simp add: exWorld2_def)
  have b4: "disk exWorld2 ''/b'' = Some (exFile ''abcdef'' 6 None)"
    by (simp add: exWorld2_def)
  have b5: "fileTimestamp (exFile ''abcdef'' 6 None) \<noteq> timestamp (exEntry [] 5)"
    by (simp add: exFile_def exEntry_def)
  have a1: "(''/a'', exEntry [exMatch 0 1 False] 5) \<in> set exUnchecked"
    by (simp add: exUnchecked_def)
  have a2: "\<not> hasCheckedMatches (exEntry [exMatch 0 1 False] 5)"
    by (simp add: hasCheckedMatches_def exEntry_def exMatch_sel)
  have a3: "openDocuments exWorld2 ''/a'' = None"
    by (simp add: exWorld2_def)
  have a4: "disk exWorld2 ''/a'' = Some (exFile ''abcdef'' 5 None)"
    by (simp add: exWorld2_def)
  have a5: "fileTimestamp (exFile ''abcdef'' 5 None) = timestamp (exEntry [exMatch 0 1 False] 5)"
    by (simp add: exFile_def exEntry_def)
  have a6: "fileWritable (exFile ''abcdef'' 5 None)"
    by (simp add: exFile_def)
  from performReplacements_unchecked_file [OF d b1 b2 b3 o, of exComparePaths "''X''"] b4 b5
  have rb: "(\<exists>errs. snd (snd (performReplacements exComparePaths exWorld2 exUnchecked ''X'' None))
                = Rejected errs
              \<and> (''/b'', ERROR_FILE_CHANGED) \<in> set errs)
            \<and> disk (fst (performReplacements exComparePaths exWorld2 exUnchecked ''X'' None)) ''/b''
              = Some (exFile ''abcdef'' 6 None)"
    by blast
  have a7: "fileLineEndings (exFile ''abcdef'' 5 None) \<noteq> Some LINE_ENDINGS_CRLF
            \<and> noCRLF (fileText (exFile ''abcdef'' 5 None))"
    by (simp add: exFile_def)
  from performReplacements_unchecked_file [OF d a1 a2 a3 o, of exComparePaths "''X''"] a4 a5 a6 a7
  have "disk (fst (performReplacements exComparePaths exWorld2 exUnchecked ''X'' None)) ''/a''
        = Some ((exFile ''abcdef'' 5 None)
             \<lparr>fileWrites := Suc (fileWrites (exFile ''abcdef'' 5 None))\<rparr>)"
    by blast
  then have ra: "disk (fst (performReplacements exComparePaths exWorld2 exUnchecked ''X'' None)) ''/a''
        = Some ((exFile ''abcdef'' 5 None)\<lparr>fileWrites := 1\<rparr>)"
    by (simp add: exFile_def)
  from d o b1 b2 b3 b4 b5 rb a1 a2 a3 a4 a5 a6 ra show ?thesis
    by blast
qed

end
